theory Spec2Isabelle
  imports Main "HOL-Library.AList" "HOL-Library.Sublist"
begin

section \<open>A disk-usage scanner: the scan engine of \<open>server.js\<close>\<close>

text \<open>
  The development embeds the scan engine of the server (\<open>startScan\<close>, \<open>stopScan\<close>,
  \<open>scanDirectory\<close>, \<open>getFolderName\<close>, \<open>getFileDescription\<close>, \<open>formatScanResults\<close>) and
  the parts of the JavaScript runtime and of Node's \<open>path\<close> and \<open>fs\<close> modules that these
  functions call.

  Conventions.
  \<^item> A JavaScript string is a \<open>string\<close>: the bytes of its UTF-8 encoding, as the POSIX file
    system stores names. The non-ASCII literals of the source are written by their bytes.
    Case mapping is the ASCII one.
  \<^item> A JavaScript number that holds an integer is an \<open>int\<close>. A counter that steps by
    one is added exactly; a sum of sizes is rounded as a double rounds it (\<open>jsAdd\<close>).
  \<^item> The \<open>path\<close> module is the POSIX one (separator \<open>/\<close>).
  \<^item> An object literal \<open>{}\<close> used as a dictionary is an association list of its own
    properties, in insertion order, together with the property names that every object
    inherits from \<open>Object.prototype\<close>: a read of an inherited name yields a truthy
    object, although the dictionary has no such own property. JavaScript lists the keys
    that are array indices before the others; the list keeps all keys in insertion order,
    which matters only for the order of entries of equal size in a result list.
\<close>

subsection \<open>Strings\<close>

definition lowerTable :: "(char \<times> char) list" where
  "lowerTable = zip ''ABCDEFGHIJKLMNOPQRSTUVWXYZ'' ''abcdefghijklmnopqrstuvwxyz''"

definition upperTable :: "(char \<times> char) list" where
  "upperTable = zip ''abcdefghijklmnopqrstuvwxyz'' ''ABCDEFGHIJKLMNOPQRSTUVWXYZ''"

definition mapChar :: "(char \<times> char) list \<Rightarrow> char \<Rightarrow> char" where
  "mapChar t c = (case map_of t c of Some d \<Rightarrow> d | None \<Rightarrow> c)"

definition toLowerCase :: "string \<Rightarrow> string" where
  "toLowerCase s = map (mapChar lowerTable) s"

definition toUpperCase :: "string \<Rightarrow> string" where
  "toUpperCase s = map (mapChar upperTable) s"

text \<open>\<open>s.startsWith(p)\<close> and \<open>s.includes(p)\<close>.\<close>

definition startsWith :: "string \<Rightarrow> string \<Rightarrow> bool" where
  "startsWith s p = (take (length p) s = p)"

fun str_includes :: "string \<Rightarrow> string \<Rightarrow> bool" where
  "str_includes [] p = (p = [])"
| "str_includes (c # cs) p = (startsWith (c # cs) p \<or> str_includes cs p)"

text \<open>\<open>s.slice(a, b)\<close> for \<open>0 \<le> a\<close> and \<open>0 \<le> b\<close>.\<close>

definition slice :: "string \<Rightarrow> int \<Rightarrow> int \<Rightarrow> string" where
  "slice s a b = take (nat (b - a)) (drop (nat a) s)"

text \<open>\<open>s.split(c)\<close> for a one-character separator, and \<open>parts.join('/')\<close>.\<close>

fun splitOn :: "char \<Rightarrow> string \<Rightarrow> string list" where
  "splitOn c [] = [[]]"
| "splitOn c (x # xs) =
     (if x = c then [] # splitOn c xs
      else (case splitOn c xs of [] \<Rightarrow> [[x]] | y # ys \<Rightarrow> (x # y) # ys))"

fun joinSlash :: "string list \<Rightarrow> string" where
  "joinSlash [] = []"
| "joinSlash [s] = s"
| "joinSlash (s # t # ss) = s @ ''/'' @ joinSlash (t # ss)"

subsection \<open>Numbers\<close>

text \<open>
  A size is a double that holds an integer, and \<open>a + b\<close> is the double nearest to the
  exact sum, the one with the even significand when two are equally near. A double has a
  significand of 53 bits: every integer of magnitude up to \<open>2^53 = 9007199254740992\<close> is
  a double, and one of \<open>53 + k\<close> bits is a multiple of \<open>2^k\<close>. \<open>excessBits n\<close> is this \<open>k\<close>.
  The exponent range of a double (a sum beyond \<open>2^1023\<close>) is left out.
\<close>

function excessBits :: "int \<Rightarrow> nat" where
  "excessBits n = (if n < 9007199254740992 then 0 else Suc (excessBits (n div 2)))"
  by pat_completeness auto
termination
  by (relation "measure nat") auto

declare excessBits.simps [simp del]

text \<open>The double nearest to an integer that is not negative, and to any integer.\<close>

definition roundMagnitude :: "int \<Rightarrow> int" where
  "roundMagnitude n =
     (let u = 2 ^ excessBits n; q = n div u; r = n mod u
      in if 2 * r < u \<or> (2 * r = u \<and> even q) then q * u else (q + 1) * u)"

definition roundDouble :: "int \<Rightarrow> int" where
  "roundDouble x = (if 0 \<le> x then roundMagnitude x else - roundMagnitude (- x))"

definition jsAdd :: "int \<Rightarrow> int \<Rightarrow> int" where
  "jsAdd a b = roundDouble (a + b)"

subsection \<open>Values read from an object used as a dictionary\<close>

text \<open>
  The names every object inherits from \<open>Object.prototype\<close>. \<open>m[k]\<close> is the own property
  when there is one, the inherited member for these names, and \<open>undefined\<close> otherwise.
\<close>

definition objectPrototypeNames :: "string list" where
  "objectPrototypeNames =
     [''constructor'', ''__defineGetter__'', ''__defineSetter__'', ''hasOwnProperty'',
      ''__lookupGetter__'', ''__lookupSetter__'', ''isPrototypeOf'', ''propertyIsEnumerable'',
      ''toString'', ''valueOf'', ''__proto__'', ''toLocaleString'']"

definition inherited :: "string \<Rightarrow> bool" where
  "inherited k = (k \<in> set objectPrototypeNames)"

datatype 'a jsprop = Own 'a | Inherited | Undefined

definition jsGet :: "(string \<times> 'a) list \<Rightarrow> string \<Rightarrow> 'a jsprop" where
  "jsGet m k = (case map_of m k of Some v \<Rightarrow> Own v
                | None \<Rightarrow> if inherited k then Inherited else Undefined)"

text \<open>
  A display value: a string, or (read from a literal table under an inherited name) a
  member of \<open>Object.prototype\<close>, which is truthy.
\<close>

datatype jsval = JStr string | JProto string

fun truthy :: "jsval \<Rightarrow> bool" where
  "truthy (JStr s) = (s \<noteq> [])"
| "truthy (JProto k) = True"

definition tableGet :: "(string \<times> string) list \<Rightarrow> string \<Rightarrow> jsval option" where
  "tableGet t k = (case map_of t k of Some v \<Rightarrow> Some (JStr v)
                   | None \<Rightarrow> if inherited k then Some (JProto k) else None)"

subsection \<open>Node's \<open>path\<close> module (POSIX)\<close>

text \<open>
  The functions of \<open>path.posix\<close> that the server calls, after Node's \<open>lib/path.js\<close>:
  \<open>normalize\<close>, \<open>join\<close>, \<open>dirname\<close>, \<open>extname\<close> and \<open>basename\<close> with a suffix.
\<close>

text \<open>
  \<open>normalizeString\<close>: the segments between separators, left to right; empty segments
  and \<open>.\<close> are dropped, \<open>..\<close> removes the segment before it, or is kept when nothing is
  left to remove and the path is relative (\<open>allowAboveRoot\<close>). The accumulator holds the
  kept segments, last first.
\<close>

fun normSegs :: "bool \<Rightarrow> string list \<Rightarrow> string list \<Rightarrow> string list" where
  "normSegs allowAboveRoot acc [] = rev acc"
| "normSegs allowAboveRoot acc (s # ss) =
     (if s = [] \<or> s = ''.'' then normSegs allowAboveRoot acc ss
      else if s = ''..'' then
        (case acc of
           t # ts \<Rightarrow>
             if t \<noteq> ''..'' then normSegs allowAboveRoot ts ss
             else if allowAboveRoot then normSegs allowAboveRoot (s # acc) ss
             else normSegs allowAboveRoot acc ss
         | [] \<Rightarrow>
             if allowAboveRoot then normSegs allowAboveRoot [s] ss
             else normSegs allowAboveRoot acc ss)
      else normSegs allowAboveRoot (s # acc) ss)"

text \<open>\<open>path.normalize\<close>.\<close>

definition normalize_path :: "string \<Rightarrow> string" where
  "normalize_path path =
     (if path = [] then ''.''
      else
        let isAbsolute = (hd path = CHR ''/'');
            trailingSeparator = (last path = CHR ''/'');
            p = joinSlash (normSegs (\<not> isAbsolute) [] (splitOn CHR ''/'' path))
        in if p = [] then
             (if isAbsolute then ''/'' else if trailingSeparator then ''./'' else ''.'')
           else
             (let p' = (if trailingSeparator then p @ ''/'' else p)
              in if isAbsolute then ''/'' @ p' else p'))"

text \<open>\<open>path.join(a, b)\<close>: the non-empty arguments joined by \<open>/\<close>, then normalized.\<close>

definition join :: "string \<Rightarrow> string \<Rightarrow> string" where
  "join a b =
     (let parts = filter (\<lambda>s. s \<noteq> []) [a, b]
      in if parts = [] then ''.'' else normalize_path (joinSlash parts))"

text \<open>
  \<open>path.dirname\<close>. The source scans from the last character down to index 1: it skips
  trailing separators, then the last segment, and stops at the separator before it
  (index \<open>end\<close>); the result is \<open>path.slice(0, end)\<close>, or the root, or \<open>.\<close>.
  Here the scan runs over the reversed tail of the path: \<open>dirnameScan\<close> is what is left
  of it from that separator on.
\<close>

definition dirnameScan :: "string \<Rightarrow> string" where
  "dirnameScan path =
     dropWhile (\<lambda>c. c \<noteq> CHR ''/'') (dropWhile (\<lambda>c. c = CHR ''/'') (rev (tl path)))"

definition dirname :: "string \<Rightarrow> string" where
  "dirname path =
     (if path = [] then ''.''
      else
        let hasRoot = (hd path = CHR ''/'');
            r = dirnameScan path
        in if r = [] then (if hasRoot then ''/'' else ''.'')
           else if hasRoot \<and> tl r = [] then ''//''
           else hd path # rev (tl r))"

text \<open>\<open>path.extname\<close>: the loop of the source, from the last index down to 0.\<close>

record extState =
  startDot :: int
  startPart :: int
  endIdx :: int
  matchedSlash :: bool
  preDotState :: int

fun extnameLoop :: "string \<Rightarrow> nat \<Rightarrow> extState \<Rightarrow> extState" where
  "extnameLoop path 0 s = s"
| "extnameLoop path (Suc i) s =
     (let code = path ! i in
      if code = CHR ''/'' then
        (if \<not> matchedSlash s then s\<lparr>startPart := int i + 1\<rparr> else extnameLoop path i s)
      else
        let s1 = (if endIdx s = - 1 then s\<lparr>endIdx := int i + 1, matchedSlash := False\<rparr> else s);
            s2 = (if code = CHR ''.'' then
                    (if startDot s1 = - 1 then s1\<lparr>startDot := int i\<rparr>
                     else if preDotState s1 \<noteq> 1 then s1\<lparr>preDotState := 1\<rparr> else s1)
                  else if startDot s1 \<noteq> - 1 then s1\<lparr>preDotState := - 1\<rparr> else s1)
        in extnameLoop path i s2)"

definition extname :: "string \<Rightarrow> string" where
  "extname path =
     (let s = extnameLoop path (length path)
                \<lparr>startDot = - 1, startPart = 0, endIdx = - 1, matchedSlash = True, preDotState = 0\<rparr>
      in if startDot s = - 1 \<or> endIdx s = - 1 \<or> preDotState s = 0 \<or>
            (preDotState s = 1 \<and> startDot s = endIdx s - 1 \<and> startDot s = startPart s + 1)
         then [] else slice path (startDot s) (endIdx s))"

text \<open>\<open>path.basename(path, ext)\<close>: both loops of the source.\<close>

record baseState =
  bStart :: int
  bEnd :: int
  bMatchedSlash :: bool
  extIdx :: int
  firstNonSlashEnd :: int

fun basenameSuffixLoop :: "string \<Rightarrow> string \<Rightarrow> nat \<Rightarrow> baseState \<Rightarrow> baseState" where
  "basenameSuffixLoop path ext 0 s = s"
| "basenameSuffixLoop path ext (Suc i) s =
     (let code = path ! i in
      if code = CHR ''/'' then
        (if \<not> bMatchedSlash s then s\<lparr>bStart := int i + 1\<rparr>
         else basenameSuffixLoop path ext i s)
      else
        let s1 = (if firstNonSlashEnd s = - 1
                  then s\<lparr>bMatchedSlash := False, firstNonSlashEnd := int i + 1\<rparr> else s);
            s2 = (if 0 \<le> extIdx s1 then
                    (if code = ext ! nat (extIdx s1) then
                       (if extIdx s1 - 1 = - 1 then s1\<lparr>extIdx := extIdx s1 - 1, bEnd := int i\<rparr>
                        else s1\<lparr>extIdx := extIdx s1 - 1\<rparr>)
                     else s1\<lparr>extIdx := - 1, bEnd := firstNonSlashEnd s1\<rparr>)
                  else s1)
        in basenameSuffixLoop path ext i s2)"

fun basenamePlainLoop :: "string \<Rightarrow> nat \<Rightarrow> baseState \<Rightarrow> baseState" where
  "basenamePlainLoop path 0 s = s"
| "basenamePlainLoop path (Suc i) s =
     (if path ! i = CHR ''/'' then
        (if \<not> bMatchedSlash s then s\<lparr>bStart := int i + 1\<rparr> else basenamePlainLoop path i s)
      else if bEnd s = - 1 then
        basenamePlainLoop path i (s\<lparr>bMatchedSlash := False, bEnd := int i + 1\<rparr>)
      else basenamePlainLoop path i s)"

definition basename :: "string \<Rightarrow> string \<Rightarrow> string" where
  "basename path ext =
     (let s0 = \<lparr>bStart = 0, bEnd = - 1, bMatchedSlash = True,
                extIdx = int (length ext) - 1, firstNonSlashEnd = - 1\<rparr>
      in if 0 < length ext \<and> length ext \<le> length path then
           (if ext = path then []
            else
              let s = basenameSuffixLoop path ext (length path) s0;
                  e = (if bStart s = bEnd s then firstNonSlashEnd s
                       else if bEnd s = - 1 then int (length path) else bEnd s)
              in slice path (bStart s) e)
         else
           (let s = basenamePlainLoop path (length path) s0
            in if bEnd s = - 1 then [] else slice path (bStart s) (bEnd s)))"

subsection \<open>Literal tables and display names\<close>

text \<open>The string literals of the source that are not ASCII, by their UTF-8 bytes.\<close>

definition noExtension :: string where
  "noExtension = [CHR 0xE6, CHR 0x97, CHR 0xA0, CHR 0xE6, CHR 0x89, CHR 0xA9, CHR 0xE5, CHR 0xB1, CHR 0x95, CHR 0xE5, CHR 0x90, CHR 0x8D]"

definition unknownFolder :: string where
  "unknownFolder = [CHR 0xE6, CHR 0x9C, CHR 0xAA, CHR 0xE7, CHR 0x9F, CHR 0xA5, CHR 0xE6, CHR 0x96, CHR 0x87, CHR 0xE4, CHR 0xBB, CHR 0xB6, CHR 0xE5, CHR 0xA4, CHR 0xB9]"

definition rootDirectory :: string where
  "rootDirectory = [CHR 0xE6, CHR 0xA0, CHR 0xB9, CHR 0xE7, CHR 0x9B, CHR 0xAE, CHR 0xE5, CHR 0xBD, CHR 0x95]"

definition fileSuffix :: string where
  "fileSuffix = [CHR 0xE6, CHR 0x96, CHR 0x87, CHR 0xE4, CHR 0xBB, CHR 0xB6]"

definition unrecognizedApplication :: string where
  "unrecognizedApplication = [CHR 0xE6, CHR 0x9C, CHR 0xAA, CHR 0xE8, CHR 0xAF, CHR 0x86, CHR 0xE5, CHR 0x88, CHR 0xAB, CHR 0xE5, CHR 0xBA, CHR 0x94, CHR 0xE7, CHR 0x94, CHR 0xA8]"

definition invalidPathPrefix :: string where
  "invalidPathPrefix = [CHR 0xE6, CHR 0x89, CHR 0xAB, CHR 0xE6, CHR 0x8F, CHR 0x8F, CHR 0xE8, CHR 0xB7, CHR 0xAF, CHR 0xE5, CHR 0xBE, CHR 0x84, CHR 0xE6, CHR 0x97, CHR 0xA0, CHR 0xE6, CHR 0x95, CHR 0x88] @ '': ''"

definition scanAborted :: string where
  "scanAborted = [CHR 0xE6, CHR 0x89, CHR 0xAB, CHR 0xE6, CHR 0x8F, CHR 0x8F, CHR 0xE5, CHR 0xB7, CHR 0xB2, CHR 0xE4, CHR 0xB8, CHR 0xAD, CHR 0xE6, CHR 0xAD, CHR 0xA2]"

definition descriptions :: "(string \<times> string) list" where
  "descriptions = [
    (''exe'', [CHR 0xE5, CHR 0x8F, CHR 0xAF, CHR 0xE6, CHR 0x89, CHR 0xA7, CHR 0xE8, CHR 0xA1, CHR 0x8C, CHR 0xE6, CHR 0x96, CHR 0x87, CHR 0xE4, CHR 0xBB, CHR 0xB6]),
    (''dll'', [CHR 0xE5, CHR 0x8A, CHR 0xA8, CHR 0xE6, CHR 0x80, CHR 0x81, CHR 0xE9, CHR 0x93, CHR 0xBE, CHR 0xE6, CHR 0x8E, CHR 0xA5, CHR 0xE5, CHR 0xBA, CHR 0x93]),
    (''sys'', [CHR 0xE7, CHR 0xB3, CHR 0xBB, CHR 0xE7, CHR 0xBB, CHR 0x9F, CHR 0xE6, CHR 0x96, CHR 0x87, CHR 0xE4, CHR 0xBB, CHR 0xB6]),
    (''docx'', ''Word'' @ [CHR 0xE6, CHR 0x96, CHR 0x87, CHR 0xE6, CHR 0xA1, CHR 0xA3]),
    (''xlsx'', ''Excel'' @ [CHR 0xE8, CHR 0xA1, CHR 0xA8, CHR 0xE6, CHR 0xA0, CHR 0xBC]),
    (''pptx'', ''PowerPoint'' @ [CHR 0xE6, CHR 0xBC, CHR 0x94, CHR 0xE7, CHR 0xA4, CHR 0xBA, CHR 0xE6, CHR 0x96, CHR 0x87, CHR 0xE7, CHR 0xA8, CHR 0xBF]),
    (''pdf'', ''PDF'' @ [CHR 0xE6, CHR 0x96, CHR 0x87, CHR 0xE6, CHR 0xA1, CHR 0xA3]),
    (''txt'', [CHR 0xE6, CHR 0x96, CHR 0x87, CHR 0xE6, CHR 0x9C, CHR 0xAC, CHR 0xE6, CHR 0x96, CHR 0x87, CHR 0xE4, CHR 0xBB, CHR 0xB6]),
    (''jpg'', ''JPEG'' @ [CHR 0xE5, CHR 0x9B, CHR 0xBE, CHR 0xE7, CHR 0x89, CHR 0x87]),
    (''jpeg'', ''JPEG'' @ [CHR 0xE5, CHR 0x9B, CHR 0xBE, CHR 0xE7, CHR 0x89, CHR 0x87]),
    (''png'', ''PNG'' @ [CHR 0xE5, CHR 0x9B, CHR 0xBE, CHR 0xE7, CHR 0x89, CHR 0x87]),
    (''gif'', ''GIF'' @ [CHR 0xE5, CHR 0x9B, CHR 0xBE, CHR 0xE7, CHR 0x89, CHR 0x87]),
    (''bmp'', ''BMP'' @ [CHR 0xE5, CHR 0x9B, CHR 0xBE, CHR 0xE7, CHR 0x89, CHR 0x87]),
    (''mp3'', ''MP3'' @ [CHR 0xE9, CHR 0x9F, CHR 0xB3, CHR 0xE9, CHR 0xA2, CHR 0x91]),
    (''wav'', ''WAV'' @ [CHR 0xE9, CHR 0x9F, CHR 0xB3, CHR 0xE9, CHR 0xA2, CHR 0x91]),
    (''mp4'', ''MP4'' @ [CHR 0xE8, CHR 0xA7, CHR 0x86, CHR 0xE9, CHR 0xA2, CHR 0x91]),
    (''avi'', ''AVI'' @ [CHR 0xE8, CHR 0xA7, CHR 0x86, CHR 0xE9, CHR 0xA2, CHR 0x91]),
    (''mkv'', ''MKV'' @ [CHR 0xE8, CHR 0xA7, CHR 0x86, CHR 0xE9, CHR 0xA2, CHR 0x91]),
    (''zip'', ''ZIP'' @ [CHR 0xE5, CHR 0x8E, CHR 0x8B, CHR 0xE7, CHR 0xBC, CHR 0xA9, CHR 0xE5, CHR 0x8C, CHR 0x85]),
    (''rar'', ''RAR'' @ [CHR 0xE5, CHR 0x8E, CHR 0x8B, CHR 0xE7, CHR 0xBC, CHR 0xA9, CHR 0xE5, CHR 0x8C, CHR 0x85]),
    (''7z'', ''7Z'' @ [CHR 0xE5, CHR 0x8E, CHR 0x8B, CHR 0xE7, CHR 0xBC, CHR 0xA9, CHR 0xE5, CHR 0x8C, CHR 0x85]),
    (''js'', ''JavaScript'' @ [CHR 0xE6, CHR 0x96, CHR 0x87, CHR 0xE4, CHR 0xBB, CHR 0xB6]),
    (''css'', ''CSS'' @ [CHR 0xE6, CHR 0xA0, CHR 0xB7, CHR 0xE5, CHR 0xBC, CHR 0x8F, CHR 0xE6, CHR 0x96, CHR 0x87, CHR 0xE4, CHR 0xBB, CHR 0xB6]),
    (''html'', ''HTML'' @ [CHR 0xE6, CHR 0x96, CHR 0x87, CHR 0xE4, CHR 0xBB, CHR 0xB6]),
    (''json'', ''JSON'' @ [CHR 0xE6, CHR 0x96, CHR 0x87, CHR 0xE4, CHR 0xBB, CHR 0xB6]),
    (''xml'', ''XML'' @ [CHR 0xE6, CHR 0x96, CHR 0x87, CHR 0xE4, CHR 0xBB, CHR 0xB6]),
    (''sql'', ''SQL'' @ [CHR 0xE6, CHR 0x96, CHR 0x87, CHR 0xE4, CHR 0xBB, CHR 0xB6]),
    (''php'', ''PHP'' @ [CHR 0xE6, CHR 0x96, CHR 0x87, CHR 0xE4, CHR 0xBB, CHR 0xB6]),
    (''py'', ''Python'' @ [CHR 0xE6, CHR 0x96, CHR 0x87, CHR 0xE4, CHR 0xBB, CHR 0xB6]),
    (''java'', ''Java'' @ [CHR 0xE6, CHR 0x96, CHR 0x87, CHR 0xE4, CHR 0xBB, CHR 0xB6]),
    (''c'', ''C'' @ [CHR 0xE8, CHR 0xAF, CHR 0xAD, CHR 0xE8, CHR 0xA8, CHR 0x80, CHR 0xE6, CHR 0x96, CHR 0x87, CHR 0xE4, CHR 0xBB, CHR 0xB6]),
    (''cpp'', ''C++'' @ [CHR 0xE6, CHR 0x96, CHR 0x87, CHR 0xE4, CHR 0xBB, CHR 0xB6]),
    (''cs'', ''C#'' @ [CHR 0xE6, CHR 0x96, CHR 0x87, CHR 0xE4, CHR 0xBB, CHR 0xB6]),
    (''go'', ''Go'' @ [CHR 0xE8, CHR 0xAF, CHR 0xAD, CHR 0xE8, CHR 0xA8, CHR 0x80, CHR 0xE6, CHR 0x96, CHR 0x87, CHR 0xE4, CHR 0xBB, CHR 0xB6]),
    (''rb'', ''Ruby'' @ [CHR 0xE6, CHR 0x96, CHR 0x87, CHR 0xE4, CHR 0xBB, CHR 0xB6]),
    (''swift'', ''Swift'' @ [CHR 0xE6, CHR 0x96, CHR 0x87, CHR 0xE4, CHR 0xBB, CHR 0xB6]),
    (''kt'', ''Kotlin'' @ [CHR 0xE6, CHR 0x96, CHR 0x87, CHR 0xE4, CHR 0xBB, CHR 0xB6]),
    (''md'', ''Markdown'' @ [CHR 0xE6, CHR 0x96, CHR 0x87, CHR 0xE4, CHR 0xBB, CHR 0xB6]),
    (''log'', [CHR 0xE6, CHR 0x97, CHR 0xA5, CHR 0xE5, CHR 0xBF, CHR 0x97, CHR 0xE6, CHR 0x96, CHR 0x87, CHR 0xE4, CHR 0xBB, CHR 0xB6]),
    (''bak'', [CHR 0xE5, CHR 0xA4, CHR 0x87, CHR 0xE4, CHR 0xBB, CHR 0xBD, CHR 0xE6, CHR 0x96, CHR 0x87, CHR 0xE4, CHR 0xBB, CHR 0xB6]),
    (''tmp'', [CHR 0xE4, CHR 0xB8, CHR 0xB4, CHR 0xE6, CHR 0x97, CHR 0xB6, CHR 0xE6, CHR 0x96, CHR 0x87, CHR 0xE4, CHR 0xBB, CHR 0xB6])]"

definition systemFolderNames :: "(string \<times> string) list" where
  "systemFolderNames = [
    (''Program Files'', [CHR 0xE7, CHR 0xA8, CHR 0x8B, CHR 0xE5, CHR 0xBA, CHR 0x8F, CHR 0xE6, CHR 0x96, CHR 0x87, CHR 0xE4, CHR 0xBB, CHR 0xB6]),
    (''Program Files (x86)'', [CHR 0xE7, CHR 0xA8, CHR 0x8B, CHR 0xE5, CHR 0xBA, CHR 0x8F, CHR 0xE6, CHR 0x96, CHR 0x87, CHR 0xE4, CHR 0xBB, CHR 0xB6] @ ''(x86)''),
    (''Windows'', [CHR 0xE7, CHR 0xB3, CHR 0xBB, CHR 0xE7, CHR 0xBB, CHR 0x9F, CHR 0xE6, CHR 0x96, CHR 0x87, CHR 0xE4, CHR 0xBB, CHR 0xB6, CHR 0xE5, CHR 0xA4, CHR 0xB9]),
    (''Users'', [CHR 0xE7, CHR 0x94, CHR 0xA8, CHR 0xE6, CHR 0x88, CHR 0xB7, CHR 0xE6, CHR 0x96, CHR 0x87, CHR 0xE4, CHR 0xBB, CHR 0xB6, CHR 0xE5, CHR 0xA4, CHR 0xB9]),
    (''AppData'', [CHR 0xE5, CHR 0xBA, CHR 0x94, CHR 0xE7, CHR 0x94, CHR 0xA8, CHR 0xE6, CHR 0x95, CHR 0xB0, CHR 0xE6, CHR 0x8D, CHR 0xAE]),
    (''Documents'', [CHR 0xE6, CHR 0x88, CHR 0x91, CHR 0xE7, CHR 0x9A, CHR 0x84, CHR 0xE6, CHR 0x96, CHR 0x87, CHR 0xE6, CHR 0xA1, CHR 0xA3]),
    (''Desktop'', [CHR 0xE6, CHR 0xA1, CHR 0x8C, CHR 0xE9, CHR 0x9D, CHR 0xA2]),
    (''Downloads'', [CHR 0xE4, CHR 0xB8, CHR 0x8B, CHR 0xE8, CHR 0xBD, CHR 0xBD]),
    (''Pictures'', [CHR 0xE5, CHR 0x9B, CHR 0xBE, CHR 0xE7, CHR 0x89, CHR 0x87]),
    (''Music'', [CHR 0xE9, CHR 0x9F, CHR 0xB3, CHR 0xE4, CHR 0xB9, CHR 0x90]),
    (''Videos'', [CHR 0xE8, CHR 0xA7, CHR 0x86, CHR 0xE9, CHR 0xA2, CHR 0x91])]"

text \<open>\<open>getFileDescription\<close>: \<open>descriptions[extension] || `${extension.toUpperCase()}...`\<close>.\<close>

definition getFileDescription :: "string \<Rightarrow> jsval" where
  "getFileDescription extension =
     (case tableGet descriptions extension of
        Some v \<Rightarrow> if truthy v then v else JStr (toUpperCase extension @ fileSuffix)
      | None \<Rightarrow> JStr (toUpperCase extension @ fileSuffix))"

fun findIndex :: "('a \<Rightarrow> bool) \<Rightarrow> 'a list \<Rightarrow> nat option" where
  "findIndex P [] = None"
| "findIndex P (x # xs) =
     (if P x then Some 0 else (case findIndex P xs of None \<Rightarrow> None | Some i \<Rightarrow> Some (Suc i)))"

text \<open>\<open>getFolderName\<close>. Nothing in its \<open>try\<close> block throws, so its \<open>catch\<close> is not modelled.\<close>

definition getFolderName :: "string \<Rightarrow> jsval" where
  "getFolderName folderPath =
     (if folderPath = [] then JStr unknownFolder
      else
        let parts = filter (\<lambda>s. s \<noteq> []) (splitOn CHR ''/'' folderPath)
        in if parts = [] then JStr rootDirectory
           else
             let folderName = last parts;
                 friendly = tableGet systemFolderNames folderName
             in if (case friendly of Some v \<Rightarrow> truthy v | None \<Rightarrow> False) then the friendly
                else if str_includes (toLowerCase folderPath) ''program files'' then
                  (case findIndex (\<lambda>part. str_includes (toLowerCase part) ''program files'') parts of
                     Some i \<Rightarrow> if i + 1 < length parts then JStr (parts ! (i + 1)) else JStr folderName
                   | None \<Rightarrow> JStr folderName)
                else JStr folderName)"

subsection \<open>The aggregator\<close>

record fileTypeEntry =
  ftName :: string
  ftCount :: int
  ftSize :: int
  ftDescription :: jsval

record folderEntry =
  foName :: jsval
  foPath :: string
  foSize :: int

record applicationEntry =
  apName :: string
  apPath :: string
  apSize :: int

record scanStats =
  totalFiles :: int
  totalSize :: int
  fileTypes :: "(string \<times> fileTypeEntry) list"
  folders :: "(string \<times> folderEntry) list"
  applications :: "(string \<times> applicationEntry) list"
  scannedCount :: int
  errorCount :: int

definition emptyStats :: scanStats where
  "emptyStats = \<lparr>totalFiles = 0, totalSize = 0, fileTypes = [], folders = [],
                  applications = [], scannedCount = 0, errorCount = 0\<rparr>"

text \<open>
  \<open>if (!m[k]) { m[k] = v }\<close>: the entry is created only when the read is \<open>undefined\<close>; an
  own entry (an object) and an inherited member are both truthy.
\<close>

definition ensure :: "(string \<times> 'a) list \<Rightarrow> string \<Rightarrow> 'a \<Rightarrow> (string \<times> 'a) list" where
  "ensure m k v = (case jsGet m k of Undefined \<Rightarrow> AList.update k v m | _ \<Rightarrow> m)"

text \<open>
  \<open>m[k].field += x\<close> after the entry was ensured: an own entry is updated in place; under
  an inherited name the write lands on the shared member of \<open>Object.prototype\<close>, and the
  dictionary's own properties stay as they are.
\<close>

definition modify :: "(string \<times> 'a) list \<Rightarrow> string \<Rightarrow> ('a \<Rightarrow> 'a) \<Rightarrow> (string \<times> 'a) list" where
  "modify m k f = (case map_of m k of Some e \<Rightarrow> AList.update k (f e) m | None \<Rightarrow> m)"

definition newFolder :: "string \<Rightarrow> folderEntry" where
  "newFolder p = \<lparr>foName = getFolderName p, foPath = p, foSize = 0\<rparr>"

definition addFolderSize :: "(string \<times> folderEntry) list \<Rightarrow> string \<Rightarrow> int \<Rightarrow> (string \<times> folderEntry) list" where
  "addFolderSize fo p sz = modify (ensure fo p (newFolder p)) p (\<lambda>e. e\<lparr>foSize := jsAdd (foSize e) sz\<rparr>)"

text \<open>The extension of an entry name, as lines 295 to 299 derive it.\<close>

definition fileExtension :: "string \<Rightarrow> string" where
  "fileExtension name =
     (let e = toLowerCase (extname name);
          e' = (if startsWith e ''.'' then drop 1 e else e)
      in if e' = [] then noExtension else e')"

definition executableExtensions :: "string list" where
  "executableExtensions = [''exe'', ''msi'', ''app'', ''dmg'', ''pkg'', ''appx'', ''msix'', ''com'']"

definition isExecutable :: "string \<Rightarrow> bool" where
  "isExecutable extension = (extension \<in> set executableExtensions)"

definition isInAppDirectory :: "string \<Rightarrow> bool" where
  "isInAppDirectory fullPath =
     (str_includes (toLowerCase fullPath) ''program files'' \<or>
      str_includes (toLowerCase fullPath) ''applications'' \<or>
      str_includes (toLowerCase fullPath) ''appdata'' \<or>
      str_includes (toLowerCase fullPath) (''windows'' @ [CHR 0x5C] @ ''system32''))"

text \<open>
  The loop of lines 357 to 375, which adds the size of a file to the folders above its
  own. It ends because \<open>dirname\<close> shortens its argument until it reaches a fixed point.
\<close>

function rollup :: "string \<Rightarrow> string \<Rightarrow> int \<Rightarrow> string \<Rightarrow> (string \<times> folderEntry) list \<Rightarrow> (string \<times> folderEntry) list" where
  "rollup drivePath folderPath sz parentPath fo =
     (if parentPath \<noteq> [] \<and> parentPath \<noteq> folderPath \<and>
         length drivePath \<le> length parentPath \<and> startsWith parentPath drivePath
      then
        let fo' = addFolderSize fo parentPath sz;
            newParent = dirname parentPath
        in if newParent = parentPath then fo' else rollup drivePath folderPath sz newParent fo'
      else fo)"
  by pat_completeness auto
termination
proof (relation "measure (\<lambda>(drivePath, folderPath, sz, p, fo). 2 * length p + (if dirname p = p then 0 else 1))")
  show "wf (measure (\<lambda>(drivePath, folderPath, sz, p, fo). 2 * length p + (if dirname p = p then 0 else 1)))"
    by simp
next
  fix drivePath folderPath :: string and sz :: int and p :: string
    and fo x :: "(string \<times> folderEntry) list" and xa :: string
  assume a: "p \<noteq> [] \<and> p \<noteq> folderPath \<and> length drivePath \<le> length p \<and> startsWith p drivePath"
    and xa: "xa = dirname p" and ne: "xa \<noteq> p"
  have p: "p \<noteq> []" using a by simp
  have unfold: "dirname p =
     (if dirnameScan p = [] then (if hd p = CHR ''/'' then ''/'' else ''.'')
      else if hd p = CHR ''/'' \<and> tl (dirnameScan p) = [] then ''//''
      else hd p # rev (tl (dirnameScan p)))"
    using p by (simp add: dirname_def Let_def)
  have dot: "dirname ''.'' = ''.''" by (simp add: dirname_def dirnameScan_def)
  obtain c cs where pc: "p = c # cs" using p by (cases p) auto
  have "length (dirname p) < length p \<or>
        (length (dirname p) = length p \<and> dirname (dirname p) = dirname p)"
  proof (cases "dirnameScan p = []")
    case True
    show ?thesis
    proof (cases "hd p = CHR ''/''")
      case True
      with \<open>dirnameScan p = []\<close> have d: "dirname p = ''/''" by (simp add: unfold)
      from True pc have "c = CHR ''/''" by simp
      with d ne xa pc have "cs \<noteq> []" by auto
      with d pc show ?thesis by simp
    next
      case False
      with \<open>dirnameScan p = []\<close> have d: "dirname p = ''.''" by (simp add: unfold)
      show ?thesis
      proof (cases "cs = []")
        case True
        with d pc show ?thesis by (simp add: dot)
      next
        case False
        with d pc show ?thesis by simp
      qed
    qed
  next
    case False
    define q where "q = dropWhile (\<lambda>c. c = CHR ''/'') (rev (tl p))"
    have r: "dirnameScan p = dropWhile (\<lambda>c. c \<noteq> CHR ''/'') q" by (simp add: dirnameScan_def q_def)
    with False have "q \<noteq> []" by auto
    then have "hd q \<noteq> CHR ''/''"
      unfolding q_def using hd_dropWhile [of "\<lambda>c. c = CHR ''/''" "rev (tl p)"] by simp
    then obtain c' q' where q: "q = c' # q'" "c' \<noteq> CHR ''/''" using \<open>q \<noteq> []\<close> by (cases q) auto
    have "length (dirnameScan p) \<le> length q'" unfolding r q using q(2) by (simp add: length_dropWhile_le)
    moreover have "length q \<le> length (tl p)"
      unfolding q_def using length_dropWhile_le [of _ "rev (tl p)"] by simp
    ultimately have len: "length (dirnameScan p) + 2 \<le> length p" using q(1) pc by auto
    from False have l: "length (tl (dirnameScan p)) + 1 = length (dirnameScan p)"
      by (cases "dirnameScan p") auto
    have "length (dirname p) \<le> length (dirnameScan p) + 1"
      using False l by (cases "dirnameScan p") (auto simp: unfold)
    with len show ?thesis by simp
  qed
  then show "((drivePath, folderPath, sz, xa, x), (drivePath, folderPath, sz, p, fo))
      \<in> measure (\<lambda>(drivePath, folderPath, sz, p, fo). 2 * length p + (if dirname p = p then 0 else 1))"
    using xa ne by auto
qed

declare rollup.simps [simp del]

text \<open>The statements of the file branch (lines 294 to 378) that update the aggregator.\<close>

definition recordFile :: "string \<Rightarrow> string \<Rightarrow> string \<Rightarrow> int \<Rightarrow> scanStats \<Rightarrow> scanStats" where
  "recordFile drivePath fullPath name sz st =
     (let extension = fileExtension name;
          st1 = st\<lparr>totalFiles := totalFiles st + 1, totalSize := jsAdd (totalSize st) sz\<rparr>;
          ft1 = ensure (fileTypes st1) extension
                  \<lparr>ftName = extension, ftCount = 0, ftSize = 0,
                   ftDescription = getFileDescription extension\<rparr>;
          ft2 = modify ft1 extension (\<lambda>e. e\<lparr>ftCount := ftCount e + 1\<rparr>);
          ft3 = modify ft2 extension (\<lambda>e. e\<lparr>ftSize := jsAdd (ftSize e) sz\<rparr>);
          st2 = st1\<lparr>fileTypes := ft3\<rparr>;
          st3 = (if isExecutable extension \<or> isInAppDirectory fullPath then
                   let appName = basename fullPath (''.'' @ extension);
                       ap1 = ensure (applications st2) appName
                               \<lparr>apName = appName, apPath = fullPath, apSize = 0\<rparr>;
                       ap2 = modify ap1 appName (\<lambda>e. e\<lparr>apSize := jsAdd (apSize e) sz\<rparr>)
                   in st2\<lparr>applications := ap2\<rparr>
                 else st2);
          folderPath = dirname fullPath;
          fo1 = addFolderSize (folders st3) folderPath sz;
          fo2 = rollup drivePath folderPath sz (dirname folderPath) fo1;
          st4 = st3\<lparr>folders := fo2\<rparr>
      in st4\<lparr>scannedCount := scannedCount st4 + 1\<rparr>)"


subsection \<open>\<open>formatScanResults\<close>\<close>

record fileTypeOut =
  otName :: string
  otType :: string
  otDescription :: jsval
  otCount :: int
  otSize :: int

record folderOut =
  ofName :: jsval
  ofPath :: string
  ofSize :: int

record applicationOut =
  oaName :: string
  oaPath :: "string option"
  oaSize :: int

record scanResult =
  rTotalFiles :: int
  rTotalSize :: int
  rFileTypes :: "fileTypeOut list"
  rFolders :: "folderOut list"
  rApplications :: "applicationOut list"
  rErrorCount :: int

text \<open>
  The three chains \<open>Object.entries(...).map(...).filter(...).sort(...).slice(0, 20)\<close>. Every
  value of the dictionaries is an entry object, so the branch of the source for a bare number
  (\<open>typeof ... === 'object'\<close> false) has no counterpart. \<open>sort\<close> with the comparator
  \<open>b.size - a.size\<close> is a stable sort by descending size.
\<close>

definition formatFileType :: "string \<times> fileTypeEntry \<Rightarrow> fileTypeOut" where
  "formatFileType kv =
     (case kv of (ext, d) \<Rightarrow>
        \<lparr>otName = (if ftName d \<noteq> [] then ftName d else ext),
         otType = ext,
         otDescription = (if truthy (ftDescription d) then ftDescription d else getFileDescription ext),
         otCount = ftCount d,
         otSize = ftSize d\<rparr>)"

definition formatFolder :: "string \<times> folderEntry \<Rightarrow> folderOut" where
  "formatFolder kv = (case kv of (key, d) \<Rightarrow> \<lparr>ofName = foName d, ofPath = foPath d, ofSize = foSize d\<rparr>)"

definition formatApplication :: "string \<times> applicationEntry \<Rightarrow> applicationOut" where
  "formatApplication kv =
     (case kv of (key, d) \<Rightarrow> \<lparr>oaName = apName d, oaPath = Some (apPath d), oaSize = apSize d\<rparr>)"

definition placeholderApplication :: applicationOut where
  "placeholderApplication = \<lparr>oaName = unrecognizedApplication, oaPath = None, oaSize = 1\<rparr>"

definition rankedFileTypes :: "scanStats \<Rightarrow> fileTypeOut list" where
  "rankedFileTypes st =
     take 20 (sort_key (\<lambda>x. - otSize x) (filter (\<lambda>x. 0 < otSize x) (map formatFileType (fileTypes st))))"

definition rankedFolders :: "scanStats \<Rightarrow> folderOut list" where
  "rankedFolders st =
     take 20 (sort_key (\<lambda>x. - ofSize x)
       (filter (\<lambda>x. 0 < ofSize x \<and> truthy (ofName x)) (map formatFolder (folders st))))"

definition filteredApplications :: "scanStats \<Rightarrow> applicationOut list" where
  "filteredApplications st = filter (\<lambda>x. 0 < oaSize x) (map formatApplication (applications st))"

definition rankedApplications :: "scanStats \<Rightarrow> applicationOut list" where
  "rankedApplications st =
     (let apps = take 20 (sort_key (\<lambda>x. - oaSize x) (filteredApplications st))
      in if length apps = 0 then apps @ [placeholderApplication] else apps)"

definition formatScanResults :: "scanStats \<Rightarrow> scanResult" where
  "formatScanResults st =
     \<lparr>rTotalFiles = totalFiles st,
      rTotalSize = totalSize st,
      rFileTypes = rankedFileTypes st,
      rFolders = rankedFolders st,
      rApplications = rankedApplications st,
      rErrorCount = errorCount st\<rparr>"

subsection \<open>The file system, the connection and the task\<close>

text \<open>
  What the walk asks of Node's \<open>fs\<close>: \<open>existsSync\<close>; \<open>accessSync(p, R_OK)\<close>, true when it
  returns and false when it throws; \<open>readdirSync(p, {withFileTypes: true})\<close>, \<open>None\<close> when it
  throws; \<open>statSync(p).size\<close>, \<open>None\<close> when \<open>statSync\<close> throws.
\<close>

datatype entryKind = Directory | RegularFile | OtherKind

datatype dirent = Dirent (entName: string) (entKind: entryKind)

record fileSystem =
  existsSync :: "string \<Rightarrow> bool"
  accessSync :: "string \<Rightarrow> bool"
  readdirSync :: "string \<Rightarrow> dirent list option"
  statSync :: "string \<Rightarrow> int option"

datatype message =
    ScanStarted string
  | ScanProgress string int int int string int
  | ScanComplete string scanResult int
  | ScanError string string
  | ScanStopped string

text \<open>
  What is observed of a run: the messages handed to \<open>ws.send\<close> and the insertions into and
  removals from the task registry \<open>scanTasks\<close>, in order.
\<close>

datatype event = Sent message | RegistrySet string | RegistryDelete string

text \<open>
  \<open>scanDirectory\<close> is an \<open>async\<close> function: at each \<open>await\<close>, and before the \<open>then\<close> or
  \<open>catch\<close> callback of \<open>startScan\<close> runs, other handlers of the server may run. The
  environment says which request, if any, is handled at the \<open>n\<close>-th such point
  (\<open>incoming\<close>), the \<open>readyState\<close> of the connection from then on, and the clock.
\<close>

datatype request = StopScan string | Close

record environment =
  fs :: fileSystem
  incoming :: "nat \<Rightarrow> request option"
  readyState :: "nat \<Rightarrow> nat"
  now :: "nat \<Rightarrow> int"

text \<open>The fields of the task object that never change, and the state that does.\<close>

record task =
  drivePath :: string
  scanDepth :: int
  taskId :: string
  startTime :: int

record world =
  stats :: scanStats
  abort :: bool
  registered :: bool
  trace :: "event list"
  ticks :: nat

definition emit :: "event \<Rightarrow> world \<Rightarrow> world" where
  "emit e w = w\<lparr>trace := trace w @ [e]\<rparr>"

definition bumpError :: "world \<Rightarrow> world" where
  "bumpError w = w\<lparr>stats := (stats w)\<lparr>errorCount := errorCount (stats w) + 1\<rparr>\<rparr>"

text \<open>\<open>stopScan\<close>, for a registry that holds at most this task.\<close>

definition stopScan :: "task \<Rightarrow> string \<Rightarrow> world \<Rightarrow> world" where
  "stopScan T tid w =
     (if registered w \<and> tid = taskId T then
        emit (RegistryDelete tid) (emit (Sent (ScanStopped tid)) (w\<lparr>abort := True\<rparr>))\<lparr>registered := False\<rparr>
      else w)"

text \<open>The \<open>close\<close> handler of the connection.\<close>

definition closeConnection :: "task \<Rightarrow> world \<Rightarrow> world" where
  "closeConnection T w =
     (if registered w then (emit (RegistryDelete (taskId T)) (w\<lparr>abort := True\<rparr>))\<lparr>registered := False\<rparr>
      else w)"

definition deliver :: "environment \<Rightarrow> task \<Rightarrow> world \<Rightarrow> world" where
  "deliver E T w =
     (case incoming E (ticks w) of
        None \<Rightarrow> w
      | Some (StopScan tid) \<Rightarrow> stopScan T tid w
      | Some Close \<Rightarrow> closeConnection T w)\<lparr>ticks := Suc (ticks w)\<rparr>"

text \<open>Lines 379 to 394: a progress message after every 50th file.\<close>

definition reportProgress :: "environment \<Rightarrow> task \<Rightarrow> string \<Rightarrow> world \<Rightarrow> world" where
  "reportProgress E T fullPath w =
     (if scannedCount (stats w) mod 50 = 0 then
        (if taskId T \<noteq> [] \<and> readyState E (ticks w) = 1 then
           emit (Sent (ScanProgress (taskId T) (scannedCount (stats w)) (totalSize (stats w))
                         (errorCount (stats w)) fullPath
                         (min 99 (scannedCount (stats w) div 100)))) w
         else w)
      else w)"

definition ensureFolder :: "string \<Rightarrow> world \<Rightarrow> world" where
  "ensureFolder fullPath w =
     w\<lparr>stats := (stats w)\<lparr>folders := ensure (folders (stats w)) fullPath (newFolder fullPath)\<rparr>\<rparr>"

definition processFile :: "environment \<Rightarrow> task \<Rightarrow> string \<Rightarrow> string \<Rightarrow> int \<Rightarrow> world \<Rightarrow> world" where
  "processFile E T fullPath name sz w =
     reportProgress E T fullPath (w\<lparr>stats := recordFile (drivePath T) fullPath name sz (stats w)\<rparr>)"

subsection \<open>\<open>scanDirectory\<close>\<close>

text \<open>
  \<open>scanDirectory\<close> returns whether its promise was rejected (only the check of line 222 throws
  outside a \<open>try\<close>) and the state it leaves. \<open>scanEntries\<close> is the \<open>for\<close> loop of line 264 with
  the two \<open>catch\<close> blocks around it: an exception of the loop body (line 396) counts an error
  and goes on with the next entry; the exception of the check of line 266 is caught at
  line 404, which counts an error and ends the call.
\<close>

function scanDirectory :: "environment \<Rightarrow> task \<Rightarrow> string \<Rightarrow> int \<Rightarrow> int \<Rightarrow> world \<Rightarrow> bool \<times> world"
  and scanEntries :: "environment \<Rightarrow> task \<Rightarrow> string \<Rightarrow> dirent list \<Rightarrow> int \<Rightarrow> int \<Rightarrow> world \<Rightarrow> world"
where
  "scanDirectory E T dirPath currentDepth maxDepth w =
     (if abort w then (True, w)
      else if dirPath = [] \<or> \<not> existsSync (fs E) dirPath then (False, bumpError w)
      else
        let normalizedPath = normalize_path dirPath
        in if \<not> existsSync (fs E) normalizedPath then (False, bumpError w)
           else if \<not> accessSync (fs E) normalizedPath then (False, bumpError w)
           else
             (case readdirSync (fs E) normalizedPath of
                None \<Rightarrow> (False, bumpError w)
              | Some entries \<Rightarrow> (False, scanEntries E T dirPath entries currentDepth maxDepth w)))"
| "scanEntries E T dirPath [] currentDepth maxDepth w = w"
| "scanEntries E T dirPath (entry # rest) currentDepth maxDepth w =
     (if abort w then bumpError w
      else
        let fullPath = join dirPath (entName entry)
        in case entKind entry of
             Directory \<Rightarrow>
               (let w1 = ensureFolder fullPath w
                in if currentDepth < maxDepth then
                     (case scanDirectory E T fullPath (currentDepth + 1) maxDepth w1 of
                        (rejected, w2) \<Rightarrow>
                          let w3 = deliver E T w2
                          in scanEntries E T dirPath rest currentDepth maxDepth
                               (if rejected then bumpError w3 else w3))
                   else scanEntries E T dirPath rest currentDepth maxDepth w1)
           | RegularFile \<Rightarrow>
               (case statSync (fs E) fullPath of
                  None \<Rightarrow> scanEntries E T dirPath rest currentDepth maxDepth (bumpError w)
                | Some sz \<Rightarrow>
                    scanEntries E T dirPath rest currentDepth maxDepth
                      (processFile E T fullPath (entName entry) sz w))
           | OtherKind \<Rightarrow> scanEntries E T dirPath rest currentDepth maxDepth w)"
  by pat_completeness auto
termination
  by (relation "inv_image (less_than <*lex*> less_than <*lex*> less_than)
       (\<lambda>x. case x of
          Inl (E, T, dirPath, currentDepth, maxDepth, w) \<Rightarrow> (nat (maxDepth + 1 - currentDepth), 1::nat, 0::nat)
        | Inr (E, T, dirPath, entries, currentDepth, maxDepth, w) \<Rightarrow>
            (nat (maxDepth + 1 - currentDepth), 0, length entries))") auto

declare scanDirectory.simps [simp del]

subsection \<open>\<open>startScan\<close>\<close>

record payload =
  pDrivePath :: "string option"
  pScanDepth :: "int option"

definition idle :: world where
  "idle = \<lparr>stats = emptyStats, abort = False, registered = False, trace = [], ticks = 0\<rparr>"

text \<open>
  \<open>startScan\<close>, from the arrival of the request to the end of the \<open>then\<close> or \<open>catch\<close> callback.
  \<open>tid\<close> is the task identifier \<open>Date.now().toString()\<close>. A payload that is absent is \<open>{}\<close>.
\<close>

definition durationSeconds :: "int \<Rightarrow> int" where
  "durationSeconds ms = (ms + 500) div 1000"

definition requestedPath :: "payload option \<Rightarrow> string option" where
  "requestedPath p = (case p of None \<Rightarrow> None | Some q \<Rightarrow> pDrivePath q)"

definition requestedDepth :: "payload option \<Rightarrow> int" where
  "requestedDepth p =
     (case p of None \<Rightarrow> 2 | Some q \<Rightarrow> (case pScanDepth q of None \<Rightarrow> 2 | Some d \<Rightarrow> d))"

text \<open>The task object of line 155 (without its mutable fields) and the state after line 170.\<close>

definition newTask :: "environment \<Rightarrow> string \<Rightarrow> string \<Rightarrow> int \<Rightarrow> task" where
  "newTask E tid path depth = \<lparr>drivePath = path, scanDepth = depth, taskId = tid, startTime = now E 0\<rparr>"

definition started :: "string \<Rightarrow> world" where
  "started tid = emit (Sent (ScanStarted tid)) (emit (RegistrySet tid) (idle\<lparr>registered := True\<rparr>))"

text \<open>
  The \<open>then\<close> and \<open>catch\<close> callbacks of lines 174 to 201, which run once the promise of
  \<open>scanDirectory\<close> is settled, after other handlers had their turn.
\<close>

definition settle :: "environment \<Rightarrow> task \<Rightarrow> bool \<times> world \<Rightarrow> world" where
  "settle E T r =
     (case r of (rejected, w2) \<Rightarrow>
        let w3 = deliver E T w2;
            w4 = (if abort w3 then w3
                  else if rejected then emit (Sent (ScanError (taskId T) scanAborted)) w3
                  else emit (Sent (ScanComplete (taskId T) (formatScanResults (stats w3))
                                     (durationSeconds (now E (ticks w3) - startTime T)))) w3)
        in (emit (RegistryDelete (taskId T)) w4)\<lparr>registered := False\<rparr>)"

definition startScan :: "environment \<Rightarrow> string \<Rightarrow> payload option \<Rightarrow> world" where
  "startScan E tid p =
     (case requestedPath p of
        None \<Rightarrow> emit (Sent (ScanError tid (invalidPathPrefix @ ''undefined''))) idle
      | Some path \<Rightarrow>
          if path = [] \<or> \<not> existsSync (fs E) path then
            emit (Sent (ScanError tid (invalidPathPrefix @ path))) idle
          else
            let T = newTask E tid path (requestedDepth p)
            in settle E T (scanDirectory E T path 1 (scanDepth T) (started tid)))"

subsection \<open>What a walk visits\<close>

text \<open>
  The walk as the specification describes it, apart from the aggregator and from
  cancellation: the entries of a directory in listing order; a directory entry is seen,
  and descended into only while the current depth is below the maximum; a directory that
  cannot be listed and an entry whose size cannot be read are failures, and nothing below
  a failure is visited.
\<close>

datatype visit = SeenFolder string | ReadFile string string int | Failure

function visitDirectory :: "fileSystem \<Rightarrow> string \<Rightarrow> int \<Rightarrow> int \<Rightarrow> visit list"
  and visitEntries :: "fileSystem \<Rightarrow> string \<Rightarrow> dirent list \<Rightarrow> int \<Rightarrow> int \<Rightarrow> visit list"
where
  "visitDirectory F dirPath currentDepth maxDepth =
     (if dirPath = [] \<or> \<not> existsSync F dirPath \<or> \<not> existsSync F (normalize_path dirPath) \<or>
         \<not> accessSync F (normalize_path dirPath)
      then [Failure]
      else
        (case readdirSync F (normalize_path dirPath) of
           None \<Rightarrow> [Failure]
         | Some entries \<Rightarrow> visitEntries F dirPath entries currentDepth maxDepth))"
| "visitEntries F dirPath [] currentDepth maxDepth = []"
| "visitEntries F dirPath (entry # rest) currentDepth maxDepth =
     (case entKind entry of
        Directory \<Rightarrow>
          SeenFolder (join dirPath (entName entry)) #
            (if currentDepth < maxDepth
             then visitDirectory F (join dirPath (entName entry)) (currentDepth + 1) maxDepth
             else [])
      | RegularFile \<Rightarrow>
          (case statSync F (join dirPath (entName entry)) of
             None \<Rightarrow> [Failure]
           | Some sz \<Rightarrow> [ReadFile (join dirPath (entName entry)) (entName entry) sz])
      | OtherKind \<Rightarrow> [])
     @ visitEntries F dirPath rest currentDepth maxDepth"
  by pat_completeness auto
termination
  by (relation "inv_image (less_than <*lex*> less_than <*lex*> less_than)
       (\<lambda>x. case x of
          Inl (F, dirPath, currentDepth, maxDepth) \<Rightarrow> (nat (maxDepth + 1 - currentDepth), 1::nat, 0::nat)
        | Inr (F, dirPath, entries, currentDepth, maxDepth) \<Rightarrow>
            (nat (maxDepth + 1 - currentDepth), 0, length entries))") auto

declare visitDirectory.simps [simp del]

text \<open>What each visit does to the aggregator, and a list of visits in order.\<close>

fun applyVisit :: "string \<Rightarrow> scanStats \<Rightarrow> visit \<Rightarrow> scanStats" where
  "applyVisit root st (SeenFolder p) = st\<lparr>folders := ensure (folders st) p (newFolder p)\<rparr>"
| "applyVisit root st (ReadFile p name sz) = recordFile root p name sz st"
| "applyVisit root st Failure = st\<lparr>errorCount := errorCount st + 1\<rparr>"

definition replay :: "string \<Rightarrow> scanStats \<Rightarrow> visit list \<Rightarrow> scanStats" where
  "replay root st vs = foldl (applyVisit root) st vs"

fun readSize :: "visit \<Rightarrow> int" where
  "readSize (ReadFile p name sz) = sz"
| "readSize v = 0"

fun isFailure :: "visit \<Rightarrow> bool" where
  "isFailure Failure = True"
| "isFailure v = False"

fun isReadFile :: "visit \<Rightarrow> bool" where
  "isReadFile (ReadFile p name sz) = True"
| "isReadFile v = False"

text \<open>
  The sizes that a walk reads are not negative and add up to less than \<open>2^53\<close>. Then every
  sum of some of them is a double, and no addition of sizes rounds.
\<close>

definition exactSizes :: "visit list \<Rightarrow> bool" where
  "exactSizes vs =
     (list_all (\<lambda>v. 0 \<le> readSize v) vs \<and> sum_list (map readSize vs) < 9007199254740992)"

subsection \<open>Observations on a trace\<close>

fun reportsOn :: "string \<Rightarrow> event \<Rightarrow> bool" where
  "reportsOn tid (Sent (ScanProgress t a b c d e)) = (t = tid)"
| "reportsOn tid (Sent (ScanComplete t r d)) = (t = tid)"
| "reportsOn tid (Sent (ScanError t m)) = (t = tid)"
| "reportsOn tid ev = False"

fun isScanError :: "event \<Rightarrow> bool" where
  "isScanError (Sent (ScanError t m)) = True"
| "isScanError ev = False"

fun isScanComplete :: "event \<Rightarrow> bool" where
  "isScanComplete (Sent (ScanComplete t r d)) = True"
| "isScanComplete ev = False"

text \<open>The run ended with \<open>scan_complete\<close>.\<close>

definition completed :: "world \<Rightarrow> bool" where
  "completed w = (\<exists>ev \<in> set (trace w). isScanComplete ev)"

text \<open>The walk sends neither \<open>scan_complete\<close> nor \<open>scan_error\<close>.\<close>

definition unsettled :: "world \<Rightarrow> bool" where
  "unsettled w = (\<forall>ev \<in> set (trace w). \<not> isScanComplete ev \<and> \<not> isScanError ev)"

text \<open>
  After a \<open>scan_stopped\<close> for the task, the trace holds no \<open>scan_progress\<close>, \<open>scan_complete\<close>
  or \<open>scan_error\<close> for it; and the state in which this is kept.
\<close>

definition stopSilent :: "string \<Rightarrow> event list \<Rightarrow> bool" where
  "stopSilent tid t =
     (\<forall>pre post. t = pre @ Sent (ScanStopped tid) # post \<longrightarrow> (\<forall>ev \<in> set post. \<not> reportsOn tid ev))"

definition stopInvariant :: "task \<Rightarrow> world \<Rightarrow> bool" where
  "stopInvariant T w =
     (stopSilent (taskId T) (trace w) \<and> (Sent (ScanStopped (taskId T)) \<in> set (trace w) \<longrightarrow> abort w))"

subsection \<open>Clean paths and subtrees\<close>




text \<open>
  \<open>p\<close> lies in the subtree of \<open>folder\<close>: it is another path, and it starts with the folder
  and a separator (the folder's own last character, when that is a separator).
\<close>

definition below :: "string \<Rightarrow> string \<Rightarrow> bool" where
  "below folder p =
     (p \<noteq> folder \<and>
      startsWith p (if folder \<noteq> [] \<and> last folder = CHR ''/'' then folder else folder @ ''/''))"



text \<open>
  What a visit adds to the sum of the sizes of the files read in the subtree of \<open>folder\<close>
  that lie below \<open>root\<close>.
\<close>

fun sizeBelow :: "string \<Rightarrow> string \<Rightarrow> visit \<Rightarrow> int" where
  "sizeBelow root folder (ReadFile p name sz) = (if below folder p \<and> below root p then sz else 0)"
| "sizeBelow root folder v = 0"


text \<open>The counters agree with each other and with the file-type entries.\<close>

definition typeTotals :: "scanStats \<Rightarrow> bool" where
  "typeTotals st =
     (totalFiles st = scannedCount st \<and>
      totalFiles st = sum_list (map (\<lambda>kv. ftCount (snd kv)) (fileTypes st)) \<and>
      totalSize st = sum_list (map (\<lambda>kv. ftSize (snd kv)) (fileTypes st)))"

text \<open>No file-type entry has a negative size.\<close>

definition sizedTypes :: "scanStats \<Rightarrow> bool" where
  "sizedTypes st = list_all (\<lambda>kv. 0 \<le> ftSize (snd kv)) (fileTypes st)"

subsection \<open>Sample inputs\<close>

text \<open>An aggregator with two applications, one of them of size 0, and nothing else.\<close>

definition sampleStats :: scanStats where
  "sampleStats = emptyStats\<lparr>applications :=
     [(''setup'', \<lparr>apName = ''setup'', apPath = ''/data/setup.exe'', apSize = 7\<rparr>),
      (''empty'', \<lparr>apName = ''empty'', apPath = ''/data/empty.exe'', apSize = 0\<rparr>),
      (''tool'', \<lparr>apName = ''tool'', apPath = ''/data/tool.exe'', apSize = 9\<rparr>)]\<rparr>"

text \<open>
  The tree of the scenario of the specification: \<open>/data/a.txt\<close> (100 bytes) and
  \<open>/data/sub/b.txt\<close> (50 bytes).
\<close>

definition dataFs :: fileSystem where
  "dataFs =
     \<lparr>existsSync = (\<lambda>p. p \<in> {''/data'', ''/data/'', ''/data/sub'', ''/data/a.txt'', ''/data/sub/b.txt''}),
      accessSync = (\<lambda>p. True),
      readdirSync = (\<lambda>p.
        if p = ''/data'' \<or> p = ''/data/'' then Some [Dirent ''a.txt'' RegularFile, Dirent ''sub'' Directory]
        else if p = ''/data/sub'' then Some [Dirent ''b.txt'' RegularFile]
        else None),
      statSync = (\<lambda>p.
        if p = ''/data/a.txt'' then Some 100
        else if p = ''/data/sub/b.txt'' then Some 50
        else None)\<rparr>"

text \<open>An environment in which no request arrives and the connection stays open.\<close>

definition quiet :: "fileSystem \<Rightarrow> environment" where
  "quiet F = \<lparr>fs = F, incoming = (\<lambda>n. None), readyState = (\<lambda>n. 1), now = (\<lambda>n. 0)\<rparr>"

definition request :: "string \<Rightarrow> int \<Rightarrow> payload option" where
  "request path depth = Some \<lparr>pDrivePath = Some path, pScanDepth = Some depth\<rparr>"

text \<open>
  The same tree with the directory listed first, and an environment in which a stop request
  for task \<open>17\<close> is handled at the first \<open>await\<close>, that is when the walk of \<open>/data/sub\<close>
  has returned.
\<close>

definition subFirstFs :: fileSystem where
  "subFirstFs = dataFs\<lparr>readdirSync := (\<lambda>p.
     if p = ''/data'' then Some [Dirent ''sub'' Directory, Dirent ''a.txt'' RegularFile]
     else if p = ''/data/sub'' then Some [Dirent ''b.txt'' RegularFile]
     else None)\<rparr>"

definition stopping :: "fileSystem \<Rightarrow> environment" where
  "stopping F = (quiet F)\<lparr>incoming := (\<lambda>n. if n = 0 then Some (StopScan ''17'') else None)\<rparr>"

text \<open>
  A root with a directory that exists but cannot be listed, a file whose size cannot be
  read, and a readable file after them; and a root that exists but is not readable.
\<close>

definition brokenFs :: fileSystem where
  "brokenFs =
     \<lparr>existsSync = (\<lambda>p. p \<in> {''/data'', ''/data/locked'', ''/data/ghost.txt'', ''/data/a.txt''}),
      accessSync = (\<lambda>p. p \<noteq> ''/data/locked''),
      readdirSync = (\<lambda>p.
        if p = ''/data'' then Some [Dirent ''locked'' Directory, Dirent ''ghost.txt'' RegularFile,
                                     Dirent ''a.txt'' RegularFile]
        else None),
      statSync = (\<lambda>p. if p = ''/data/a.txt'' then Some 100 else None)\<rparr>"

definition lockedFs :: fileSystem where
  "lockedFs =
     \<lparr>existsSync = (\<lambda>p. p = ''/locked''),
      accessSync = (\<lambda>p. False),
      readdirSync = (\<lambda>p. None),
      statSync = (\<lambda>p. None)\<rparr>"

text \<open>
  Two files whose sizes add up to \<open>2^53 + 1\<close>, which is not a double: a sparse file of
  \<open>2^53\<close> bytes and a file of one byte.
\<close>

definition hugeFs :: fileSystem where
  "hugeFs =
     \<lparr>existsSync = (\<lambda>p. p \<in> {''/data'', ''/data/a.bin'', ''/data/b.bin''}),
      accessSync = (\<lambda>p. True),
      readdirSync = (\<lambda>p.
        if p = ''/data'' then Some [Dirent ''a.bin'' RegularFile, Dirent ''b.bin'' RegularFile]
        else None),
      statSync = (\<lambda>p.
        if p = ''/data/a.bin'' then Some 9007199254740992
        else if p = ''/data/b.bin'' then Some 1
        else None)\<rparr>"

text \<open>
  Three small trees: an installer whose extension is written in capitals; a file whose
  extension is a name that every object inherits; and, for a walk of the working
  directory \<open>.\<close>, a directory with such a name.
\<close>

definition setupFs :: fileSystem where
  "setupFs =
     \<lparr>existsSync = (\<lambda>p. p \<in> {''/data'', ''/data/Setup.EXE''}),
      accessSync = (\<lambda>p. True),
      readdirSync = (\<lambda>p. if p = ''/data'' then Some [Dirent ''Setup.EXE'' RegularFile] else None),
      statSync = (\<lambda>p. if p = ''/data/Setup.EXE'' then Some 7 else None)\<rparr>"

definition oddFs :: fileSystem where
  "oddFs =
     \<lparr>existsSync = (\<lambda>p. p \<in> {''/data'', ''/data/a.constructor''}),
      accessSync = (\<lambda>p. True),
      readdirSync = (\<lambda>p. if p = ''/data'' then Some [Dirent ''a.constructor'' RegularFile] else None),
      statSync = (\<lambda>p. if p = ''/data/a.constructor'' then Some 5 else None)\<rparr>"

definition dotFs :: fileSystem where
  "dotFs =
     \<lparr>existsSync = (\<lambda>p. p \<in> {''.'', ''constructor''}),
      accessSync = (\<lambda>p. True),
      readdirSync = (\<lambda>p. if p = ''.'' then Some [Dirent ''constructor'' Directory] else None),
      statSync = (\<lambda>p. None)\<rparr>"

section \<open>Properties\<close>

subsection \<open>Invariants of the walk\<close>

text \<open>
  A property of the state that the four steps of the walk keep is kept by the walk. A file
  is processed only in a state that is not aborted.
\<close>

lemma walk_preserves:
  "(\<forall>w. I w \<longrightarrow> I (bumpError w)) \<Longrightarrow> (\<forall>p w. I w \<longrightarrow> I (ensureFolder p w)) \<Longrightarrow>
   (\<forall>w. I w \<longrightarrow> I (deliver E T w)) \<Longrightarrow>
   (\<forall>p n s w. I w \<longrightarrow> \<not> abort w \<longrightarrow> I (processFile E T p n s w)) \<Longrightarrow>
   I w \<Longrightarrow> I (snd (scanDirectory E T dirPath currentDepth maxDepth w))"
  "(\<forall>w. I w \<longrightarrow> I (bumpError w)) \<Longrightarrow> (\<forall>p w. I w \<longrightarrow> I (ensureFolder p w)) \<Longrightarrow>
   (\<forall>w. I w \<longrightarrow> I (deliver E T w)) \<Longrightarrow>
   (\<forall>p n s w. I w \<longrightarrow> \<not> abort w \<longrightarrow> I (processFile E T p n s w)) \<Longrightarrow>
   I w \<Longrightarrow> I (scanEntries E T dirPath entries currentDepth maxDepth w)"
proof (induction E T dirPath currentDepth maxDepth w and E T dirPath entries currentDepth maxDepth w
       rule: scanDirectory_scanEntries.induct)
  case (1 E T dirPath currentDepth maxDepth w)
  then show ?case
    by (auto simp: scanDirectory.simps [of E T dirPath currentDepth maxDepth w] Let_def
        split: option.splits)
next
  case (2 E T dirPath currentDepth maxDepth w)
  then show ?case by simp
next
  case (3 E T dirPath entry rest currentDepth maxDepth w)
  show ?case
  proof (cases "abort w")
    case True
    with 3 show ?thesis by simp
  next
    case False
    show ?thesis
    proof (cases "entKind entry")
      case Directory
      show ?thesis
      proof (cases "currentDepth < maxDepth")
        case True
        obtain rejected w2 where r: "scanDirectory E T (join dirPath (entName entry)) (currentDepth + 1) maxDepth
             (ensureFolder (join dirPath (entName entry)) w) = (rejected, w2)" by fastforce
        have "I (ensureFolder (join dirPath (entName entry)) w)" using "3.prems" by blast
        then have "I w2" using "3.IH"(1) [OF False refl Directory refl True] "3.prems"(1-4) r by simp
        then have "I (if rejected then bumpError (deliver E T w2) else deliver E T w2)"
          using "3.prems"(1,3) by simp
        then have "I (scanEntries E T dirPath rest currentDepth maxDepth
               (if rejected then bumpError (deliver E T w2) else deliver E T w2))"
          using "3.IH"(2) [OF False refl Directory refl True r [symmetric] refl] "3.prems"(1-4) by blast
        then show ?thesis using False Directory True r by (simp add: Let_def)
      next
        case F: False
        have "I (ensureFolder (join dirPath (entName entry)) w)" using "3.prems" by blast
        then show ?thesis
          using "3.IH"(3) [OF False refl Directory refl F] "3.prems"(1-4) False Directory F
          by (simp add: Let_def)
      qed
    next
      case RegularFile
      show ?thesis
      proof (cases "statSync (fs E) (join dirPath (entName entry))")
        case None
        have "I (bumpError w)" using "3.prems" by blast
        then show ?thesis
          using "3.IH"(4) [OF False refl RegularFile None] "3.prems"(1-4) False RegularFile None
          by (simp add: Let_def)
      next
        case (Some sz)
        have "I (processFile E T (join dirPath (entName entry)) (entName entry) sz w)"
          using "3.prems" False by blast
        then show ?thesis
          using "3.IH"(5) [OF False refl RegularFile Some] "3.prems"(1-4) False RegularFile Some
          by (simp add: Let_def)
      qed
    next
      case OtherKind
      then show ?thesis
        using "3.IH"(6) [OF False refl OtherKind] "3.prems" False by (simp add: Let_def)
    qed
  qed
qed

lemma abort_bumpError [simp]: "abort (bumpError w) = abort w"
  by (simp add: bumpError_def)

lemma abort_ensureFolder [simp]: "abort (ensureFolder p w) = abort w"
  by (simp add: ensureFolder_def)

lemma abort_processFile [simp]: "abort (processFile E T p n sz w) = abort w"
  by (simp add: processFile_def reportProgress_def emit_def)

lemma abort_deliver: "abort w \<Longrightarrow> abort (deliver E T w)"
  by (simp add: deliver_def stopScan_def closeConnection_def emit_def split: option.splits request.splits)

lemma stats_bumpError [simp]: "stats (bumpError w) = (stats w)\<lparr>errorCount := errorCount (stats w) + 1\<rparr>"
  by (simp add: bumpError_def)

lemma stats_ensureFolder [simp]:
  "stats (ensureFolder p w) = (stats w)\<lparr>folders := ensure (folders (stats w)) p (newFolder p)\<rparr>"
  by (simp add: ensureFolder_def)

lemma stats_processFile [simp]:
  "stats (processFile E T p n sz w) = recordFile (drivePath T) p n sz (stats w)"
  by (simp add: processFile_def reportProgress_def emit_def)

lemma stats_deliver [simp]: "stats (deliver E T w) = stats w"
  by (simp add: deliver_def stopScan_def closeConnection_def emit_def split: option.splits request.splits)

lemma abort_scanDirectory: "abort w \<Longrightarrow> abort (snd (scanDirectory E T dirPath currentDepth maxDepth w))"
  by (rule walk_preserves(1) [where I = abort]) (simp_all add: abort_deliver)

lemma abort_scanEntries: "abort w \<Longrightarrow> abort (scanEntries E T dirPath entries currentDepth maxDepth w)"
  by (rule walk_preserves(2) [where I = abort]) (simp_all add: abort_deliver)

lemma replay_append: "replay root st (vs @ vs') = replay root (replay root st vs) vs'"
  by (simp add: replay_def)

lemma walk_replay:
  "\<not> abort (snd (scanDirectory E T dirPath currentDepth maxDepth w)) \<Longrightarrow>
     \<not> fst (scanDirectory E T dirPath currentDepth maxDepth w) \<and>
     stats (snd (scanDirectory E T dirPath currentDepth maxDepth w)) =
       replay (drivePath T) (stats w) (visitDirectory (fs E) dirPath currentDepth maxDepth)"
  "\<not> abort (scanEntries E T dirPath entries currentDepth maxDepth w) \<Longrightarrow>
     stats (scanEntries E T dirPath entries currentDepth maxDepth w) =
       replay (drivePath T) (stats w) (visitEntries (fs E) dirPath entries currentDepth maxDepth)"
proof (induction E T dirPath currentDepth maxDepth w and E T dirPath entries currentDepth maxDepth w
       rule: scanDirectory_scanEntries.induct)
  case (1 E T dirPath currentDepth maxDepth w)
  then show ?case
    by (auto simp: scanDirectory.simps [of E T dirPath currentDepth maxDepth w]
        visitDirectory.simps [of "fs E" dirPath currentDepth maxDepth] Let_def replay_def
        split: option.splits)
next
  case (2 E T dirPath currentDepth maxDepth w)
  then show ?case by (simp add: replay_def)
next
  case (3 E T dirPath entry rest currentDepth maxDepth w)
  have na: "\<not> abort w"
    using "3.prems" abort_scanEntries [of w E T dirPath "entry # rest" currentDepth maxDepth] by blast
  let ?p = "join dirPath (entName entry)"
  show ?case
  proof (cases "entKind entry")
    case Directory
    show ?thesis
    proof (cases "currentDepth < maxDepth")
      case True
      obtain rejected w2 where r: "scanDirectory E T ?p (currentDepth + 1) maxDepth (ensureFolder ?p w) = (rejected, w2)"
        by fastforce
      let ?w4 = "if rejected then bumpError (deliver E T w2) else deliver E T w2"
      have eq: "scanEntries E T dirPath (entry # rest) currentDepth maxDepth w =
                scanEntries E T dirPath rest currentDepth maxDepth ?w4"
        using na Directory True r by (simp add: Let_def)
      then have n4: "\<not> abort ?w4" using "3.prems" abort_scanEntries by metis
      then have n2: "\<not> abort w2" using abort_deliver [of w2 E T] by (auto split: if_splits)
      have ih1: "\<not> rejected \<and> stats w2 =
            replay (drivePath T) (stats (ensureFolder ?p w)) (visitDirectory (fs E) ?p (currentDepth + 1) maxDepth)"
        using "3.IH"(1) [OF na refl Directory refl True] n2 r by simp
      have ih2: "stats (scanEntries E T dirPath rest currentDepth maxDepth ?w4) =
            replay (drivePath T) (stats ?w4) (visitEntries (fs E) dirPath rest currentDepth maxDepth)"
        using "3.IH"(2) [OF na refl Directory refl True r [symmetric] refl] "3.prems" eq by simp
      show ?thesis
        unfolding eq ih2 using ih1 Directory True by (simp add: replay_def)
    next
      case F: False
      have eq: "scanEntries E T dirPath (entry # rest) currentDepth maxDepth w =
                scanEntries E T dirPath rest currentDepth maxDepth (ensureFolder ?p w)"
        using na Directory F by (simp add: Let_def)
      show ?thesis
        using "3.IH"(3) [OF na refl Directory refl F] "3.prems" Directory F
        unfolding eq by (simp add: replay_def)
    qed
  next
    case RegularFile
    show ?thesis
    proof (cases "statSync (fs E) ?p")
      case None
      have eq: "scanEntries E T dirPath (entry # rest) currentDepth maxDepth w =
                scanEntries E T dirPath rest currentDepth maxDepth (bumpError w)"
        using na RegularFile None by (simp add: Let_def)
      show ?thesis
        using "3.IH"(4) [OF na refl RegularFile None] "3.prems" RegularFile None
        unfolding eq by (simp add: replay_def)
    next
      case (Some sz)
      have eq: "scanEntries E T dirPath (entry # rest) currentDepth maxDepth w =
                scanEntries E T dirPath rest currentDepth maxDepth (processFile E T ?p (entName entry) sz w)"
        using na RegularFile Some by (simp add: Let_def)
      show ?thesis
        using "3.IH"(5) [OF na refl RegularFile Some] "3.prems" RegularFile Some
        unfolding eq by (simp add: replay_def)
    qed
  next
    case OtherKind
    have eq: "scanEntries E T dirPath (entry # rest) currentDepth maxDepth w =
              scanEntries E T dirPath rest currentDepth maxDepth w"
      using na OtherKind by (simp add: Let_def)
    show ?thesis
      using "3.IH"(6) [OF na refl OtherKind] "3.prems" OtherKind
      unfolding eq by (simp add: replay_def)
  qed
qed
subsection \<open>The ranked result lists\<close>

lemma sorted_desc_take_sort:
  "sorted_wrt (\<lambda>a b. f b \<le> (f a :: int)) (take n (sort_key (\<lambda>x. - f x) xs))"
proof -
  have "sorted (map (\<lambda>x. - f x) (sort_key (\<lambda>x. - f x) xs))" by (rule sorted_sort_key)
  then have "sorted_wrt (\<lambda>a b. f b \<le> f a) (sort_key (\<lambda>x. - f x) xs)"
    by (simp add: sorted_map)
  then show ?thesis by (rule sorted_wrt_take)
qed

lemma positive_take_sort_filter:
  "x \<in> set (take n (sort_key k (filter P xs))) \<Longrightarrow> P x"
  using set_take_subset [of n "sort_key k (filter P xs)"] by auto

text \<open>
  C8. For every aggregator state, each of the three lists of \<open>formatScanResults\<close> has at most
  20 entries, is sorted by non-increasing size and holds no entry of size 0 or less. When no
  application is left after the filter, the application list is exactly the one placeholder
  entry, whose name is the literal of line 590 of the source (the specification renders it as
  "unrecognized") and whose size is 1; otherwise no placeholder is added.
\<close>

theorem formatScanResults_ranked:
  "length (rFileTypes (formatScanResults st)) \<le> 20 \<and>
   length (rFolders (formatScanResults st)) \<le> 20 \<and>
   length (rApplications (formatScanResults st)) \<le> 20 \<and>
   sorted_wrt (\<lambda>a b. otSize b \<le> otSize a) (rFileTypes (formatScanResults st)) \<and>
   sorted_wrt (\<lambda>a b. ofSize b \<le> ofSize a) (rFolders (formatScanResults st)) \<and>
   sorted_wrt (\<lambda>a b. oaSize b \<le> oaSize a) (rApplications (formatScanResults st)) \<and>
   (\<forall>x \<in> set (rFileTypes (formatScanResults st)). 0 < otSize x) \<and>
   (\<forall>x \<in> set (rFolders (formatScanResults st)). 0 < ofSize x) \<and>
   (\<forall>x \<in> set (rApplications (formatScanResults st)). 0 < oaSize x) \<and>
   (filteredApplications st = [] \<longrightarrow>
      rApplications (formatScanResults st) =
        [\<lparr>oaName = unrecognizedApplication, oaPath = None, oaSize = 1\<rparr>]) \<and>
   (filteredApplications st \<noteq> [] \<longrightarrow>
      rApplications (formatScanResults st) =
        take 20 (sort_key (\<lambda>x. - oaSize x) (filteredApplications st)))"
proof -
  have ft: "sorted_wrt (\<lambda>a b. otSize b \<le> otSize a) (rankedFileTypes st)"
    unfolding rankedFileTypes_def by (rule sorted_desc_take_sort)
  have fo: "sorted_wrt (\<lambda>a b. ofSize b \<le> ofSize a) (rankedFolders st)"
    unfolding rankedFolders_def by (rule sorted_desc_take_sort)
  have ftp: "\<forall>x \<in> set (rankedFileTypes st). 0 < otSize x"
    unfolding rankedFileTypes_def using positive_take_sort_filter by fast
  have fop: "\<forall>x \<in> set (rankedFolders st). 0 < ofSize x"
    unfolding rankedFolders_def by (auto dest: positive_take_sort_filter)
  have ne: "filteredApplications st \<noteq> [] \<Longrightarrow>
      take 20 (sort_key (\<lambda>x. - oaSize x) (filteredApplications st)) \<noteq> []"
    by (cases "filteredApplications st") (auto simp: take_Cons' )
  have e1: "filteredApplications st = [] \<Longrightarrow>
      rankedApplications st = [\<lparr>oaName = unrecognizedApplication, oaPath = None, oaSize = 1\<rparr>]"
    by (simp add: rankedApplications_def placeholderApplication_def)
  have e2: "filteredApplications st \<noteq> [] \<Longrightarrow>
      rankedApplications st = take 20 (sort_key (\<lambda>x. - oaSize x) (filteredApplications st))"
    using ne by (simp add: rankedApplications_def Let_def)
  have ap: "sorted_wrt (\<lambda>a b. oaSize b \<le> oaSize a) (rankedApplications st)"
  proof (cases "filteredApplications st = []")
    case True
    then show ?thesis by (simp add: e1)
  next
    case False
    then show ?thesis by (simp add: e2 sorted_desc_take_sort)
  qed
  have app: "\<forall>x \<in> set (rankedApplications st). 0 < oaSize x"
  proof (cases "filteredApplications st = []")
    case True
    then show ?thesis by (simp add: e1)
  next
    case False
    then show ?thesis
      unfolding e2 [OF False] filteredApplications_def by (auto dest: positive_take_sort_filter)
  qed
  have l1: "length (rankedFileTypes st) \<le> 20" by (simp add: rankedFileTypes_def)
  have l2: "length (rankedFolders st) \<le> 20" by (simp add: rankedFolders_def)
  have l3: "length (rankedApplications st) \<le> 20" by (simp add: rankedApplications_def Let_def)
  show ?thesis
    unfolding formatScanResults_def using ft fo ftp fop ap app e1 e2 l1 l2 l3 by simp
qed

theorem formatScanResults_ranked_witness:
  "filteredApplications emptyStats = [] \<and>
   rApplications (formatScanResults emptyStats) =
     [\<lparr>oaName = unrecognizedApplication, oaPath = None, oaSize = 1\<rparr>] \<and>
   filteredApplications sampleStats \<noteq> [] \<and>
   rApplications (formatScanResults sampleStats) =
     [\<lparr>oaName = ''tool'', oaPath = Some ''/data/tool.exe'', oaSize = 9\<rparr>,
      \<lparr>oaName = ''setup'', oaPath = Some ''/data/setup.exe'', oaSize = 7\<rparr>] \<and>
   length (rApplications (formatScanResults sampleStats)) \<le> 20"
proof -
  have a: "filteredApplications emptyStats = []"
    by (simp add: filteredApplications_def emptyStats_def)
  have b: "filteredApplications sampleStats =
      [\<lparr>oaName = ''setup'', oaPath = Some ''/data/setup.exe'', oaSize = 7\<rparr>,
       \<lparr>oaName = ''tool'', oaPath = Some ''/data/tool.exe'', oaSize = 9\<rparr>]"
    by (simp add: filteredApplications_def sampleStats_def emptyStats_def formatApplication_def)
  show ?thesis
    using formatScanResults_ranked [of emptyStats] formatScanResults_ranked [of sampleStats]
    by (simp add: a b)
qed

subsection \<open>A start request with an invalid root\<close>

text \<open>The root of a request is invalid when \<open>drivePath\<close> is absent, empty, or names nothing.\<close>

lemma startScan_invalid_trace:
  assumes "case requestedPath p of None \<Rightarrow> True | Some path \<Rightarrow> path = [] \<or> \<not> existsSync (fs E) path"
  shows "\<exists>msg. startScan E tid p = idle\<lparr>trace := [Sent (ScanError tid msg)]\<rparr>"
  using assms by (auto simp: startScan_def emit_def idle_def split: option.splits)

text \<open>
  C4. For every start request whose \<open>drivePath\<close> is missing or does not exist, the run sends
  exactly one message, a \<open>scan_error\<close>; it sends no \<open>scan_started\<close>, and the task is never put
  into the registry.
\<close>

theorem startScan_invalid_root:
  assumes "case requestedPath p of None \<Rightarrow> True | Some path \<Rightarrow> path = [] \<or> \<not> existsSync (fs E) path"
  shows "(\<exists>msg. trace (startScan E tid p) = [Sent (ScanError tid msg)]) \<and>
         (\<forall>t. Sent (ScanStarted t) \<notin> set (trace (startScan E tid p))) \<and>
         (\<forall>t. RegistrySet t \<notin> set (trace (startScan E tid p))) \<and>
         \<not> registered (startScan E tid p)"
proof -
  obtain msg where "startScan E tid p = idle\<lparr>trace := [Sent (ScanError tid msg)]\<rparr>"
    using startScan_invalid_trace [OF assms] by blast
  then show ?thesis by (simp add: idle_def)
qed

theorem startScan_invalid_root_witness:
  "\<not> existsSync (fs (quiet dataFs)) ''/nowhere'' \<and>
   trace (startScan (quiet dataFs) ''17'' (request ''/nowhere'' 2)) =
     [Sent (ScanError ''17'' (invalidPathPrefix @ ''/nowhere''))] \<and>
   \<not> registered (startScan (quiet dataFs) ''17'' (request ''/nowhere'' 2)) \<and>
   requestedPath None = None \<and>
   trace (startScan (quiet dataFs) ''17'' None) =
     [Sent (ScanError ''17'' (invalidPathPrefix @ ''undefined''))]"
proof -
  have h: "case requestedPath (request ''/nowhere'' 2) of None \<Rightarrow> True
           | Some path \<Rightarrow> path = [] \<or> \<not> existsSync (fs (quiet dataFs)) path"
    by (simp add: requestedPath_def request_def quiet_def dataFs_def)
  have h': "case requestedPath None of None \<Rightarrow> True
           | Some path \<Rightarrow> path = [] \<or> \<not> existsSync (fs (quiet dataFs)) path"
    by (simp add: requestedPath_def)
  have e: "\<not> existsSync (fs (quiet dataFs)) ''/nowhere''" by (simp add: quiet_def dataFs_def)
  show ?thesis
    using startScan_invalid_root [OF h, of "''17''"] startScan_invalid_root [OF h', of "''17''"] e
    by (simp add: startScan_def requestedPath_def request_def emit_def idle_def)
qed


subsection \<open>The run of a start request with a valid root\<close>

lemma rejected_only_aborted: "fst (scanDirectory E T dirPath currentDepth maxDepth w) \<Longrightarrow> abort w"
  by (simp add: scanDirectory.simps [of E T dirPath currentDepth maxDepth w] Let_def
      split: if_splits option.splits)

lemma startScan_valid:
  assumes "requestedPath p = Some root" and "root \<noteq> []" and "existsSync (fs E) root"
  shows "startScan E tid p =
         settle E (newTask E tid root (requestedDepth p))
           (scanDirectory E (newTask E tid root (requestedDepth p)) root 1 (requestedDepth p) (started tid))"
  using assms by (simp add: startScan_def Let_def newTask_def)

lemma startScan_invalid:
  assumes "requestedPath p = Some root" and "root = [] \<or> \<not> existsSync (fs E) root"
  shows "startScan E tid p = emit (Sent (ScanError tid (invalidPathPrefix @ root))) idle"
  using assms by (auto simp: startScan_def)

lemma unsettled_deliver: "unsettled w \<Longrightarrow> unsettled (deliver E T w)"
  by (auto simp: unsettled_def deliver_def stopScan_def closeConnection_def emit_def
      split: option.splits request.splits)

lemma unsettled_scanDirectory:
  "unsettled w \<Longrightarrow> unsettled (snd (scanDirectory E T dirPath currentDepth maxDepth w))"
  by (rule walk_preserves(1) [where I = unsettled])
    (auto simp: unsettled_deliver, 
     auto simp: unsettled_def bumpError_def ensureFolder_def processFile_def reportProgress_def emit_def)

lemma unsettled_started: "unsettled (started tid)"
  by (simp add: unsettled_def started_def emit_def idle_def)

lemma not_abort_started: "\<not> abort (started tid)"
  by (simp add: started_def emit_def idle_def)

lemma stats_started: "stats (started tid) = emptyStats"
  by (simp add: started_def emit_def idle_def)

text \<open>How a run with a valid root ends: aborted and silent, or not aborted and complete.\<close>

lemma settle_cases:
  assumes "unsettled w2" and "rejected \<longrightarrow> abort w2"
  shows "stats (settle E T (rejected, w2)) = stats w2"
    and "abort (settle E T (rejected, w2)) = abort (deliver E T w2)"
    and "\<forall>ev \<in> set (trace (settle E T (rejected, w2))). \<not> isScanError ev"
    and "completed (settle E T (rejected, w2)) = (\<not> abort (deliver E T w2))"
    and "\<not> abort (deliver E T w2) \<Longrightarrow> \<not> abort w2 \<and> \<not> rejected"
    and "\<not> abort (deliver E T w2) \<Longrightarrow>
           trace (settle E T (rejected, w2)) =
             trace (deliver E T w2) @
               [Sent (ScanComplete (taskId T) (formatScanResults (stats w2))
                        (durationSeconds (now E (ticks (deliver E T w2)) - startTime T))),
                RegistryDelete (taskId T)]"
proof -
  have u3: "unsettled (deliver E T w2)" using assms(1) by (rule unsettled_deliver)
  have a: "\<not> abort (deliver E T w2) \<Longrightarrow> \<not> abort w2" using abort_deliver by blast
  show "stats (settle E T (rejected, w2)) = stats w2"
    by (simp add: settle_def Let_def emit_def)
  show "abort (settle E T (rejected, w2)) = abort (deliver E T w2)"
    by (simp add: settle_def Let_def emit_def)
  show "\<forall>ev \<in> set (trace (settle E T (rejected, w2))). \<not> isScanError ev"
    using u3 a assms(2) by (auto simp: settle_def Let_def emit_def unsettled_def)
  show "completed (settle E T (rejected, w2)) = (\<not> abort (deliver E T w2))"
    using u3 a assms(2) by (auto simp: settle_def Let_def emit_def unsettled_def completed_def)
  show "\<not> abort (deliver E T w2) \<Longrightarrow> \<not> abort w2 \<and> \<not> rejected"
    using a assms(2) by blast
  show "\<not> abort (deliver E T w2) \<Longrightarrow>
           trace (settle E T (rejected, w2)) =
             trace (deliver E T w2) @
               [Sent (ScanComplete (taskId T) (formatScanResults (stats w2))
                        (durationSeconds (now E (ticks (deliver E T w2)) - startTime T))),
                RegistryDelete (taskId T)]"
    using a assms(2) by (auto simp: settle_def Let_def emit_def)
qed

lemma completed_valid:
  assumes "completed (startScan E tid p)"
  shows "\<exists>root. requestedPath p = Some root \<and> root \<noteq> [] \<and> existsSync (fs E) root"
proof (cases "requestedPath p")
  case None
  with assms show ?thesis by (simp add: startScan_def completed_def emit_def idle_def)
next
  case (Some root)
  show ?thesis
  proof (cases "root = [] \<or> \<not> existsSync (fs E) root")
    case True
    with assms Some show ?thesis
      by (simp add: startScan_invalid completed_def emit_def idle_def)
  next
    case False
    with Some show ?thesis by simp
  qed
qed

text \<open>A completed run leaves the aggregator that the visits of the walk, in order, build.\<close>

lemma completed_stats:
  assumes "completed (startScan E tid p)" and "requestedPath p = Some root"
  shows "stats (startScan E tid p) =
         replay root emptyStats (visitDirectory (fs E) root 1 (requestedDepth p))"
proof -
  have v: "root \<noteq> []" "existsSync (fs E) root" using completed_valid [OF assms(1)] assms(2) by auto
  let ?T = "newTask E tid root (requestedDepth p)"
  let ?r = "scanDirectory E ?T root 1 (requestedDepth p) (started tid)"
  have s: "startScan E tid p = settle E ?T (fst ?r, snd ?r)"
    using startScan_valid [OF assms(2) v] by simp
  have u: "unsettled (snd ?r)" by (rule unsettled_scanDirectory [OF unsettled_started])
  have r: "fst ?r \<longrightarrow> abort (snd ?r)"
    using rejected_only_aborted [of E ?T root 1 "requestedDepth p" "started tid"] not_abort_started by blast
  have "\<not> abort (deliver E ?T (snd ?r))"
    using assms(1) settle_cases(4) [OF u r] unfolding s by simp
  then have "\<not> abort (snd ?r)" using settle_cases(5) [OF u r] by blast
  then have "stats (snd ?r) = replay (drivePath ?T) (stats (started tid))
      (visitDirectory (fs E) root 1 (requestedDepth p))"
    using walk_replay(1) by blast
  then show ?thesis
    unfolding s using settle_cases(1) [OF u r] by (simp add: stats_started newTask_def)
qed


subsection \<open>Cancellation\<close>

lemma stopSilent_snoc:
  "stopSilent tid (t @ [e]) =
     (stopSilent tid t \<and> (Sent (ScanStopped tid) \<in> set t \<longrightarrow> \<not> reportsOn tid e))"
proof
  assume q: "stopSilent tid (t @ [e])"
  have a: "stopSilent tid t"
    unfolding stopSilent_def
  proof (intro allI impI)
    fix pre post
    assume "t = pre @ Sent (ScanStopped tid) # post"
    then have "t @ [e] = pre @ Sent (ScanStopped tid) # (post @ [e])" by simp
    with q have "\<forall>ev \<in> set (post @ [e]). \<not> reportsOn tid ev" unfolding stopSilent_def by blast
    then show "\<forall>ev \<in> set post. \<not> reportsOn tid ev" by simp
  qed
  have b: "Sent (ScanStopped tid) \<in> set t \<longrightarrow> \<not> reportsOn tid e"
  proof
    assume "Sent (ScanStopped tid) \<in> set t"
    then obtain pre post where "t = pre @ Sent (ScanStopped tid) # post" by (auto dest: split_list)
    then have "t @ [e] = pre @ Sent (ScanStopped tid) # (post @ [e])" by simp
    with q have "\<forall>ev \<in> set (post @ [e]). \<not> reportsOn tid ev" unfolding stopSilent_def by blast
    then show "\<not> reportsOn tid e" by simp
  qed
  from a b show "stopSilent tid t \<and> (Sent (ScanStopped tid) \<in> set t \<longrightarrow> \<not> reportsOn tid e)" ..
next
  assume h: "stopSilent tid t \<and> (Sent (ScanStopped tid) \<in> set t \<longrightarrow> \<not> reportsOn tid e)"
  show "stopSilent tid (t @ [e])"
    unfolding stopSilent_def
  proof (intro allI impI)
    fix pre post
    assume eq: "t @ [e] = pre @ Sent (ScanStopped tid) # post"
    show "\<forall>ev \<in> set post. \<not> reportsOn tid ev"
    proof (cases post rule: rev_cases)
      case Nil
      then show ?thesis by simp
    next
      case (snoc post' e')
      with eq have "t @ [e] = (pre @ Sent (ScanStopped tid) # post') @ [e']" by simp
      then have t: "t = pre @ Sent (ScanStopped tid) # post'" and e: "e' = e" by simp_all
      from t h have "\<forall>ev \<in> set post'. \<not> reportsOn tid ev" unfolding stopSilent_def by blast
      moreover from t h have "\<not> reportsOn tid e" by simp
      ultimately show ?thesis using snoc e by simp
    qed
  qed
qed

lemma stopSilent_Nil: "stopSilent tid []"
  by (simp add: stopSilent_def)

lemma stopInvariant_emit:
  assumes "stopInvariant T w" and "\<not> abort w" and "e \<noteq> Sent (ScanStopped (taskId T))"
  shows "stopInvariant T (emit e w)"
  using assms by (auto simp: stopInvariant_def emit_def stopSilent_snoc)

lemma stopInvariant_quiet_emit:
  assumes "stopInvariant T w" and "\<not> reportsOn (taskId T) e" and "e \<noteq> Sent (ScanStopped (taskId T))"
  shows "stopInvariant T (emit e w)"
  using assms by (auto simp: stopInvariant_def emit_def stopSilent_snoc)

lemma stopInvariant_bumpError: "stopInvariant T w \<Longrightarrow> stopInvariant T (bumpError w)"
  by (simp add: stopInvariant_def bumpError_def)

lemma stopInvariant_ensureFolder: "stopInvariant T w \<Longrightarrow> stopInvariant T (ensureFolder p w)"
  by (simp add: stopInvariant_def ensureFolder_def)

lemma stopInvariant_processFile:
  assumes "stopInvariant T w" and "\<not> abort w"
  shows "stopInvariant T (processFile E T p n sz w)"
proof -
  let ?w = "w\<lparr>stats := recordFile (drivePath T) p n sz (stats w)\<rparr>"
  have "stopInvariant T ?w" "\<not> abort ?w" using assms by (simp_all add: stopInvariant_def)
  then show ?thesis
    unfolding processFile_def reportProgress_def by (simp add: stopInvariant_emit)
qed

lemma stopInvariant_aborted_emit:
  assumes "stopInvariant T w" and "abort w" and "\<not> reportsOn (taskId T) e"
  shows "stopInvariant T (emit e w)"
  using assms by (auto simp: stopInvariant_def emit_def stopSilent_snoc)

lemma stopInvariant_set_abort: "stopInvariant T w \<Longrightarrow> stopInvariant T (w\<lparr>abort := True\<rparr>)"
  by (simp add: stopInvariant_def)

lemma stopInvariant_unregister: "stopInvariant T w \<Longrightarrow> stopInvariant T (w\<lparr>registered := False\<rparr>)"
  by (simp add: stopInvariant_def)

lemma abort_emit [simp]: "abort (emit e w) = abort w"
  by (simp add: emit_def)

lemma stopInvariant_stopScan:
  assumes "stopInvariant T w"
  shows "stopInvariant T (stopScan T tid w)"
proof (cases "registered w \<and> tid = taskId T")
  case True
  have "stopInvariant T (emit (RegistryDelete tid) (emit (Sent (ScanStopped tid)) (w\<lparr>abort := True\<rparr>)))"
    using assms True
    by (intro stopInvariant_aborted_emit stopInvariant_set_abort) simp_all
  then show ?thesis using True by (simp add: stopScan_def stopInvariant_unregister)
next
  case False
  then show ?thesis using assms by (auto simp: stopScan_def)
qed

lemma stopInvariant_closeConnection:
  assumes "stopInvariant T w"
  shows "stopInvariant T (closeConnection T w)"
proof (cases "registered w")
  case True
  have "stopInvariant T (emit (RegistryDelete (taskId T)) (w\<lparr>abort := True\<rparr>))"
    using assms by (intro stopInvariant_aborted_emit stopInvariant_set_abort) simp_all
  then show ?thesis using True by (simp add: closeConnection_def stopInvariant_unregister)
next
  case False
  then show ?thesis using assms by (simp add: closeConnection_def)
qed

lemma stopInvariant_deliver:
  assumes "stopInvariant T w"
  shows "stopInvariant T (deliver E T w)"
proof -
  have t: "\<And>v. stopInvariant T v \<Longrightarrow> stopInvariant T (v\<lparr>ticks := Suc (ticks w)\<rparr>)"
    by (simp add: stopInvariant_def)
  show ?thesis
    unfolding deliver_def using assms
    by (auto intro!: t stopInvariant_stopScan stopInvariant_closeConnection
        split: option.splits request.splits)
qed

lemma stopInvariant_scanDirectory:
  "stopInvariant T w \<Longrightarrow> stopInvariant T (snd (scanDirectory E T dirPath currentDepth maxDepth w))"
  by (rule walk_preserves(1) [where I = "stopInvariant T"])
    (simp_all add: stopInvariant_bumpError stopInvariant_ensureFolder stopInvariant_deliver
      stopInvariant_processFile)

lemma stopInvariant_started: "stopInvariant (newTask E tid root depth) (started tid)"
  by (simp add: stopInvariant_def started_def emit_def idle_def stopSilent_def newTask_def
      Cons_eq_append_conv)

lemma stopInvariant_settle:
  assumes "stopInvariant T w2"
  shows "stopInvariant T (settle E T (rejected, w2))"
proof -
  let ?w3 = "deliver E T w2"
  have i3: "stopInvariant T ?w3" using assms by (rule stopInvariant_deliver)
  have r: "\<And>v. stopInvariant T v \<Longrightarrow> stopInvariant T (v\<lparr>registered := False\<rparr>)"
    by (simp add: stopInvariant_def)
  have d: "\<And>v. stopInvariant T v \<Longrightarrow> stopInvariant T (emit (RegistryDelete (taskId T)) v)"
    by (rule stopInvariant_quiet_emit) simp_all
  show ?thesis
    unfolding settle_def using i3 by (auto simp: Let_def intro!: r d stopInvariant_emit)
qed

lemma stopInvariant_startScan:
  "stopSilent tid (trace (startScan E tid p)) \<and>
   (Sent (ScanStopped tid) \<in> set (trace (startScan E tid p)) \<longrightarrow> abort (startScan E tid p))"
proof (cases "requestedPath p")
  case None
  then show ?thesis
    by (simp add: startScan_def emit_def idle_def stopSilent_def Cons_eq_append_conv)
next
  case (Some root)
  show ?thesis
  proof (cases "root = [] \<or> \<not> existsSync (fs E) root")
    case True
    then show ?thesis
      using Some by (simp add: startScan_invalid emit_def idle_def stopSilent_def Cons_eq_append_conv)
  next
    case False
    let ?T = "newTask E tid root (requestedDepth p)"
    let ?r = "scanDirectory E ?T root 1 (requestedDepth p) (started tid)"
    have s: "startScan E tid p = settle E ?T (fst ?r, snd ?r)"
      using startScan_valid [OF Some] False by simp
    have "stopInvariant ?T (settle E ?T (fst ?r, snd ?r))"
      by (intro stopInvariant_settle stopInvariant_scanDirectory stopInvariant_started)
    then show ?thesis unfolding s by (simp add: stopInvariant_def newTask_def)
  qed
qed

text \<open>
  C3. Once the stop request for a task is acknowledged (\<open>scan_stopped\<close> is sent, which sets the
  abort flag), the run sends no \<open>scan_progress\<close>, no \<open>scan_complete\<close> and no \<open>scan_error\<close>
  for that task, whenever the request arrives; and the abort flag stays set to the end.
\<close>

theorem silent_after_stop:
  assumes "trace (startScan E tid p) = pre @ Sent (ScanStopped tid) # post"
  shows "abort (startScan E tid p) \<and> (\<forall>ev \<in> set post. \<not> reportsOn tid ev)"
proof -
  have "Sent (ScanStopped tid) \<in> set (trace (startScan E tid p))" using assms by simp
  then have "abort (startScan E tid p)" using stopInvariant_startScan by blast
  moreover have "\<forall>ev \<in> set post. \<not> reportsOn tid ev"
    using stopInvariant_startScan [of tid E p] assms unfolding stopSilent_def by blast
  ultimately show ?thesis ..
qed

theorem silent_after_stop_witness:
  "trace (startScan (stopping subFirstFs) ''17'' (request ''/data'' 2)) =
     [RegistrySet ''17'', Sent (ScanStarted ''17'')] @
       Sent (ScanStopped ''17'') # [RegistryDelete ''17'', RegistryDelete ''17''] \<and>
   abort (startScan (stopping subFirstFs) ''17'' (request ''/data'' 2)) \<and>
   totalFiles (stats (startScan (stopping subFirstFs) ''17'' (request ''/data'' 2))) = 1 \<and>
   totalFiles (stats (startScan (quiet subFirstFs) ''17'' (request ''/data'' 2))) = 2"
proof -
  have t: "trace (startScan (stopping subFirstFs) ''17'' (request ''/data'' 2)) =
     [RegistrySet ''17'', Sent (ScanStarted ''17'')] @
       Sent (ScanStopped ''17'') # [RegistryDelete ''17'', RegistryDelete ''17'']"
    by code_simp
  have n: "totalFiles (stats (startScan (stopping subFirstFs) ''17'' (request ''/data'' 2))) = 1"
    by code_simp
  have m: "totalFiles (stats (startScan (quiet subFirstFs) ''17'' (request ''/data'' 2))) = 2"
    by code_simp
  show ?thesis using silent_after_stop [OF t] t n m by simp
qed


subsection \<open>Sums that a double holds exactly\<close>

lemma excessBits_small: "n < 9007199254740992 \<Longrightarrow> excessBits n = 0"
  by (simp add: excessBits.simps [of n])

lemma roundDouble_exact: "0 \<le> x \<Longrightarrow> x < 9007199254740992 \<Longrightarrow> roundDouble x = x"
  by (simp add: roundDouble_def roundMagnitude_def excessBits_small)

lemma jsAdd_exact:
  "0 \<le> a \<Longrightarrow> 0 \<le> b \<Longrightarrow> a + b < 9007199254740992 \<Longrightarrow> jsAdd a b = a + b"
  by (simp add: jsAdd_def roundDouble_exact)

lemma sum_readSize_nonneg:
  "list_all (\<lambda>v. 0 \<le> readSize v) vs \<Longrightarrow> 0 \<le> sum_list (map readSize vs)"
  by (induction vs) auto


subsection \<open>Totals of a completed scan\<close>

lemma totalSize_recordFile: "totalSize (recordFile root p n sz st) = jsAdd (totalSize st) sz"
  by (simp add: recordFile_def Let_def)

lemma totalFiles_recordFile: "totalFiles (recordFile root p n sz st) = totalFiles st + 1"
  by (simp add: recordFile_def Let_def)

lemma errorCount_recordFile: "errorCount (recordFile root p n sz st) = errorCount st"
  by (simp add: recordFile_def Let_def)

lemma totalSize_replay:
  assumes "0 \<le> totalSize st" and "list_all (\<lambda>v. 0 \<le> readSize v) vs"
    and "totalSize st + sum_list (map readSize vs) < 9007199254740992"
  shows "totalSize (replay root st vs) = totalSize st + sum_list (map readSize vs)"
  using assms
proof (induction vs arbitrary: st)
  case Nil
  then show ?case by (simp add: replay_def)
next
  case (Cons v vs)
  have n: "0 \<le> readSize v" "list_all (\<lambda>v. 0 \<le> readSize v) vs" using Cons.prems(2) by simp_all
  have r: "0 \<le> sum_list (map readSize vs)" using n(2) by (rule sum_readSize_nonneg)
  have b: "totalSize st + readSize v < 9007199254740992" using Cons.prems(3) r by simp
  have a: "totalSize (applyVisit root st v) = totalSize st + readSize v"
    using jsAdd_exact [OF Cons.prems(1) n(1) b] by (cases v) (simp_all add: totalSize_recordFile)
  have "totalSize (replay root (applyVisit root st v) vs) =
        totalSize (applyVisit root st v) + sum_list (map readSize vs)"
    using Cons.IH [of "applyVisit root st v"] a Cons.prems(1,3) n by simp
  with a show ?case by (simp add: replay_def)
qed

lemma totalFiles_replay:
  "totalFiles (replay root st vs) = totalFiles st + int (length (filter isReadFile vs))"
proof (induction vs arbitrary: st)
  case Nil
  then show ?case by (simp add: replay_def)
next
  case (Cons v vs)
  have "totalFiles (applyVisit root st v) = totalFiles st + (if isReadFile v then 1 else 0)"
    by (cases v) (simp_all add: totalFiles_recordFile)
  with Cons [of "applyVisit root st v"] show ?case by (simp add: replay_def)
qed

lemma errorCount_replay:
  "errorCount (replay root st vs) = errorCount st + int (length (filter isFailure vs))"
proof (induction vs arbitrary: st)
  case Nil
  then show ?case by (simp add: replay_def)
next
  case (Cons v vs)
  have "errorCount (applyVisit root st v) = errorCount st + (if isFailure v then 1 else 0)"
    by (cases v) (simp_all add: errorCount_recordFile)
  with Cons [of "applyVisit root st v"] show ?case by (simp add: replay_def)
qed

text \<open>The result a completed run reports is the format of its final aggregator.\<close>

lemma completed_report:
  assumes "completed (startScan E tid p)"
    and "Sent (ScanComplete t r d) \<in> set (trace (startScan E tid p))"
  shows "r = formatScanResults (stats (startScan E tid p))"
proof -
  obtain root where v: "requestedPath p = Some root" "root \<noteq> []" "existsSync (fs E) root"
    using completed_valid [OF assms(1)] by blast
  let ?T = "newTask E tid root (requestedDepth p)"
  let ?r = "scanDirectory E ?T root 1 (requestedDepth p) (started tid)"
  have s: "startScan E tid p = settle E ?T (fst ?r, snd ?r)"
    using startScan_valid [OF v] by simp
  have u: "unsettled (snd ?r)" by (rule unsettled_scanDirectory [OF unsettled_started])
  have rj: "fst ?r \<longrightarrow> abort (snd ?r)"
    using rejected_only_aborted [of E ?T root 1 "requestedDepth p" "started tid"] not_abort_started by blast
  have na: "\<not> abort (deliver E ?T (snd ?r))"
    using assms(1) settle_cases(4) [OF u rj] unfolding s by simp
  have "\<not> isScanComplete (Sent (ScanComplete t r d)) \<or> r = formatScanResults (stats (snd ?r))"
    using assms(2) unsettled_deliver [OF u, of E ?T]
    unfolding s settle_cases(6) [OF u rj na] by (auto simp: unsettled_def)
  then show ?thesis unfolding s settle_cases(1) [OF u rj] by simp
qed

text \<open>
  C2, as the code has it. Let the sizes that the walk reads be not negative and add up to
  less than \<open>2^53\<close>. Then for every scan that reaches completion, \<open>totalSize\<close> is the sum of
  the sizes of the files whose size the walk read successfully; an entry whose size could not
  be read adds nothing. The \<open>scan_complete\<close> message reports the same number.
\<close>

theorem totalSize_is_sum_of_read_sizes:
  assumes "completed (startScan E tid p)" and "requestedPath p = Some root"
    and "exactSizes (visitDirectory (fs E) root 1 (requestedDepth p))"
  shows "totalSize (stats (startScan E tid p)) =
           sum_list (map readSize (visitDirectory (fs E) root 1 (requestedDepth p))) \<and>
         (\<forall>t r d. Sent (ScanComplete t r d) \<in> set (trace (startScan E tid p)) \<longrightarrow>
            rTotalSize r = sum_list (map readSize (visitDirectory (fs E) root 1 (requestedDepth p))))"
proof -
  let ?vs = "visitDirectory (fs E) root 1 (requestedDepth p)"
  have e: "list_all (\<lambda>v. 0 \<le> readSize v) ?vs" "sum_list (map readSize ?vs) < 9007199254740992"
    using assms(3) by (simp_all add: exactSizes_def)
  have "totalSize (replay root emptyStats ?vs) = totalSize emptyStats + sum_list (map readSize ?vs)"
    using e by (intro totalSize_replay) (simp_all add: emptyStats_def)
  then have a: "totalSize (stats (startScan E tid p)) = sum_list (map readSize ?vs)"
    unfolding completed_stats [OF assms(1,2)] by (simp add: emptyStats_def)
  have "rTotalSize r = totalSize (stats (startScan E tid p))"
    if "Sent (ScanComplete t r d) \<in> set (trace (startScan E tid p))" for t r d
    unfolding completed_report [OF assms(1) that] by (simp add: formatScanResults_def)
  with a show ?thesis by simp
qed

theorem totalSize_is_sum_of_read_sizes_witness:
  "completed (startScan (quiet brokenFs) ''17'' (request ''/data'' 2)) \<and>
   requestedPath (request ''/data'' 2) = Some ''/data'' \<and>
   visitDirectory brokenFs ''/data'' 1 2 =
     [SeenFolder ''/data/locked'', Failure, Failure, ReadFile ''/data/a.txt'' ''a.txt'' 100] \<and>
   exactSizes (visitDirectory brokenFs ''/data'' 1 2) \<and>
   totalSize (stats (startScan (quiet brokenFs) ''17'' (request ''/data'' 2))) = 100"
proof -
  have c: "completed (startScan (quiet brokenFs) ''17'' (request ''/data'' 2))" by code_simp
  have r: "requestedPath (request ''/data'' 2) = Some ''/data''"
    by (simp add: requestedPath_def request_def)
  have v: "visitDirectory brokenFs ''/data'' 1 2 =
     [SeenFolder ''/data/locked'', Failure, Failure, ReadFile ''/data/a.txt'' ''a.txt'' 100]"
    by code_simp
  have d: "requestedDepth (request ''/data'' 2) = 2" by (simp add: requestedDepth_def request_def)
  have q: "fs (quiet brokenFs) = brokenFs" by (simp add: quiet_def)
  have x: "exactSizes (visitDirectory brokenFs ''/data'' 1 2)"
    unfolding v by (simp add: exactSizes_def)
  have x': "exactSizes (visitDirectory (fs (quiet brokenFs)) ''/data'' 1
              (requestedDepth (request ''/data'' 2)))"
    unfolding q d by (rule x)
  show ?thesis
    using totalSize_is_sum_of_read_sizes [OF c r x'] c r v d x by (simp add: quiet_def)
qed

text \<open>
  C2 as stated fails when the sum of the sizes is not a double. With the files
  \<open>/data/a.bin\<close> of \<open>2^53\<close> bytes and \<open>/data/b.bin\<close> of one byte, both read
  successfully, the sizes add up to \<open>2^53 + 1\<close>; the addition of line 303 rounds it to
  \<open>2^53\<close>, which \<open>totalSize\<close> holds when the scan completes.
\<close>

theorem totalSize_counterexample:
  "completed (startScan (quiet hugeFs) ''17'' (request ''/data'' 2)) \<and>
   visitDirectory hugeFs ''/data'' 1 2 =
     [ReadFile ''/data/a.bin'' ''a.bin'' 9007199254740992, ReadFile ''/data/b.bin'' ''b.bin'' 1] \<and>
   totalSize (stats (startScan (quiet hugeFs) ''17'' (request ''/data'' 2))) = 9007199254740992 \<and>
   sum_list (map readSize (visitDirectory hugeFs ''/data'' 1 2)) = 9007199254740993"
  by code_simp


subsection \<open>Failures during the walk\<close>

text \<open>How a run with a valid root ends, whatever arrives while it runs.\<close>

lemma valid_run:
  assumes "requestedPath p = Some root" and "root \<noteq> []" and "existsSync (fs E) root"
  shows "filter isScanError (trace (startScan E tid p)) = []"
    and "completed (startScan E tid p) = (\<not> abort (startScan E tid p))"
proof -
  let ?T = "newTask E tid root (requestedDepth p)"
  let ?r = "scanDirectory E ?T root 1 (requestedDepth p) (started tid)"
  have s: "startScan E tid p = settle E ?T (fst ?r, snd ?r)"
    using startScan_valid [OF assms] by simp
  have u: "unsettled (snd ?r)" by (rule unsettled_scanDirectory [OF unsettled_started])
  have rj: "fst ?r \<longrightarrow> abort (snd ?r)"
    using rejected_only_aborted [of E ?T root 1 "requestedDepth p" "started tid"] not_abort_started by blast
  show "filter isScanError (trace (startScan E tid p)) = []"
    unfolding s using settle_cases(3) [OF u rj] by (simp add: filter_empty_conv)
  show "completed (startScan E tid p) = (\<not> abort (startScan E tid p))"
    unfolding s settle_cases(2) [OF u rj] settle_cases(4) [OF u rj] by simp
qed

text \<open>
  C6. With a root that exists, a directory whose listing fails and an entry whose size
  cannot be read each count one error and are skipped, and the walk goes on with what
  remains: in a run that is not cancelled, \<open>errorCount\<close> is the number of failures among the
  visits, every file read after a failure is still counted, and the run ends with
  \<open>scan_complete\<close>. No run with such a root sends \<open>scan_error\<close>.
\<close>

theorem failures_are_counted_and_skipped:
  assumes "requestedPath p = Some root" and "root \<noteq> []" and "existsSync (fs E) root"
  shows "filter isScanError (trace (startScan E tid p)) = [] \<and>
         (\<not> abort (startScan E tid p) \<longrightarrow>
            completed (startScan E tid p) \<and>
            stats (startScan E tid p) =
              replay root emptyStats (visitDirectory (fs E) root 1 (requestedDepth p)) \<and>
            errorCount (stats (startScan E tid p)) =
              int (length (filter isFailure (visitDirectory (fs E) root 1 (requestedDepth p)))) \<and>
            totalFiles (stats (startScan E tid p)) =
              int (length (filter isReadFile (visitDirectory (fs E) root 1 (requestedDepth p)))))"
proof -
  have "completed (startScan E tid p) \<and>
        stats (startScan E tid p) =
          replay root emptyStats (visitDirectory (fs E) root 1 (requestedDepth p)) \<and>
        errorCount (stats (startScan E tid p)) =
          int (length (filter isFailure (visitDirectory (fs E) root 1 (requestedDepth p)))) \<and>
        totalFiles (stats (startScan E tid p)) =
          int (length (filter isReadFile (visitDirectory (fs E) root 1 (requestedDepth p))))"
    if "\<not> abort (startScan E tid p)"
  proof -
    have c: "completed (startScan E tid p)" using valid_run(2) [OF assms] that by simp
    show ?thesis
      using c unfolding completed_stats [OF c assms(1)] errorCount_replay totalFiles_replay
      by (simp add: emptyStats_def)
  qed
  then show ?thesis using valid_run(1) [OF assms] by blast
qed

theorem failures_are_counted_and_skipped_witness:
  "existsSync brokenFs ''/data'' \<and>
   existsSync brokenFs ''/data/locked'' \<and> \<not> accessSync brokenFs ''/data/locked'' \<and>
   statSync brokenFs ''/data/ghost.txt'' = None \<and>
   \<not> abort (startScan (quiet brokenFs) ''17'' (request ''/data'' 2)) \<and>
   completed (startScan (quiet brokenFs) ''17'' (request ''/data'' 2)) \<and>
   visitDirectory brokenFs ''/data'' 1 2 =
     [SeenFolder ''/data/locked'', Failure, Failure, ReadFile ''/data/a.txt'' ''a.txt'' 100] \<and>
   errorCount (stats (startScan (quiet brokenFs) ''17'' (request ''/data'' 2))) = 2 \<and>
   totalFiles (stats (startScan (quiet brokenFs) ''17'' (request ''/data'' 2))) = 1"
proof -
  have r: "requestedPath (request ''/data'' 2) = Some ''/data''"
    by (simp add: requestedPath_def request_def)
  have n: "''/data'' \<noteq> []" by simp
  have e: "existsSync (fs (quiet brokenFs)) ''/data''" by (simp add: quiet_def brokenFs_def)
  have a: "\<not> abort (startScan (quiet brokenFs) ''17'' (request ''/data'' 2))" by code_simp
  have v: "visitDirectory brokenFs ''/data'' 1 2 =
     [SeenFolder ''/data/locked'', Failure, Failure, ReadFile ''/data/a.txt'' ''a.txt'' 100]"
    by code_simp
  have d: "requestedDepth (request ''/data'' 2) = 2" by (simp add: requestedDepth_def request_def)
  have f: "fs (quiet brokenFs) = brokenFs" by (simp add: quiet_def)
  have b: "existsSync brokenFs ''/data/locked'' \<and> \<not> accessSync brokenFs ''/data/locked'' \<and>
           statSync brokenFs ''/data/ghost.txt'' = None"
    by (simp add: brokenFs_def)
  note t = failures_are_counted_and_skipped [OF r n e, of "''17''", unfolded f d v]
  have c: "completed (startScan (quiet brokenFs) ''17'' (request ''/data'' 2))"
    using t a by blast
  have k: "errorCount (stats (startScan (quiet brokenFs) ''17'' (request ''/data'' 2))) = 2 \<and>
           totalFiles (stats (startScan (quiet brokenFs) ''17'' (request ''/data'' 2))) = 1"
    using t [THEN conjunct2, rule_format, OF a, THEN conjunct2, THEN conjunct2] by simp
  show ?thesis using a c k v b e unfolding f by simp
qed

subsection \<open>A root that exists but cannot be read\<close>

lemma unreadable_root_walk:
  assumes "root \<noteq> []" and "existsSync (fs E) root" and "\<not> accessSync (fs E) (normalize_path root)"
    and "\<not> abort w"
  shows "scanDirectory E T root currentDepth maxDepth w = (False, bumpError w)"
  using assms by (simp add: scanDirectory.simps [of E T root currentDepth maxDepth w] Let_def)

text \<open>
  C5, as the code has it. A root that exists but is not readable does not fail the task:
  the walk creates no folder, file-type or application entry and counts one error; the run
  registers the task, sends \<open>scan_started\<close> and never \<open>scan_error\<close>, and unless it is
  cancelled it ends with \<open>scan_complete\<close>, reporting \<open>errorCount = 1\<close>.
\<close>

theorem unreadable_root_completes:
  assumes "requestedPath p = Some root" and "root \<noteq> []" and "existsSync (fs E) root"
    and "\<not> accessSync (fs E) (normalize_path root)"
  shows "stats (startScan E tid p) = emptyStats\<lparr>errorCount := 1\<rparr> \<and>
         filter isScanError (trace (startScan E tid p)) = [] \<and>
         RegistrySet tid \<in> set (trace (startScan E tid p)) \<and>
         Sent (ScanStarted tid) \<in> set (trace (startScan E tid p)) \<and>
         (\<not> abort (startScan E tid p) \<longrightarrow>
            (\<exists>d. Sent (ScanComplete tid (formatScanResults (emptyStats\<lparr>errorCount := 1\<rparr>)) d)
                   \<in> set (trace (startScan E tid p))))"
proof -
  let ?T = "newTask E tid root (requestedDepth p)"
  let ?w = "bumpError (started tid)"
  have w: "scanDirectory E ?T root 1 (requestedDepth p) (started tid) = (False, ?w)"
    using unreadable_root_walk [OF assms(2-4) not_abort_started] .
  have s: "startScan E tid p = settle E ?T (False, ?w)"
    using startScan_valid [OF assms(1-3)] w by simp
  have u: "unsettled ?w" using unsettled_started [of tid] by (simp add: unsettled_def bumpError_def)
  have rj: "False \<longrightarrow> abort ?w" by simp
  have st: "stats ?w = emptyStats\<lparr>errorCount := 1\<rparr>"
    by (simp add: stats_started emptyStats_def)
  have a: "stats (startScan E tid p) = emptyStats\<lparr>errorCount := 1\<rparr>"
    unfolding s settle_cases(1) [OF u rj] by (rule st)
  have b: "Sent (ScanStarted tid) \<in> set (trace (startScan E tid p))"
    unfolding s
    by (auto simp: settle_def Let_def emit_def deliver_def stopScan_def closeConnection_def
        bumpError_def started_def idle_def split: option.splits request.splits)
  have g: "RegistrySet tid \<in> set (trace (startScan E tid p))"
    unfolding s
    by (auto simp: settle_def Let_def emit_def deliver_def stopScan_def closeConnection_def
        bumpError_def started_def idle_def split: option.splits request.splits)
  have c: "\<exists>d. Sent (ScanComplete tid (formatScanResults (emptyStats\<lparr>errorCount := 1\<rparr>)) d)
                   \<in> set (trace (startScan E tid p))"
    if "\<not> abort (startScan E tid p)"
  proof -
    have "\<not> abort (deliver E ?T ?w)" using that unfolding s settle_cases(2) [OF u rj] .
    then show ?thesis
      unfolding s settle_cases(6) [OF u rj \<open>\<not> abort (deliver E ?T ?w)\<close>] st
      by (auto simp: newTask_def)
  qed
  show ?thesis using a b g c valid_run(1) [OF assms(1-3)] by blast
qed

theorem unreadable_root_completes_witness:
  "existsSync lockedFs ''/locked'' \<and> \<not> accessSync lockedFs (normalize_path ''/locked'') \<and>
   \<not> abort (startScan (quiet lockedFs) ''17'' (request ''/locked'' 2)) \<and>
   stats (startScan (quiet lockedFs) ''17'' (request ''/locked'' 2)) = emptyStats\<lparr>errorCount := 1\<rparr> \<and>
   trace (startScan (quiet lockedFs) ''17'' (request ''/locked'' 2)) =
     [RegistrySet ''17'', Sent (ScanStarted ''17''),
      Sent (ScanComplete ''17'' (formatScanResults (emptyStats\<lparr>errorCount := 1\<rparr>)) 0),
      RegistryDelete ''17'']"
proof -
  have r: "requestedPath (request ''/locked'' 2) = Some ''/locked''"
    by (simp add: requestedPath_def request_def)
  have n: "''/locked'' \<noteq> []" by simp
  have e: "existsSync (fs (quiet lockedFs)) ''/locked''" by (simp add: quiet_def lockedFs_def)
  have x: "\<not> accessSync (fs (quiet lockedFs)) (normalize_path ''/locked'')"
    by (simp add: quiet_def lockedFs_def)
  have a: "\<not> abort (startScan (quiet lockedFs) ''17'' (request ''/locked'' 2))" by code_simp
  have t: "trace (startScan (quiet lockedFs) ''17'' (request ''/locked'' 2)) =
     [RegistrySet ''17'', Sent (ScanStarted ''17''),
      Sent (ScanComplete ''17'' (formatScanResults (emptyStats\<lparr>errorCount := 1\<rparr>)) 0),
      RegistryDelete ''17'']"
    by code_simp
  show ?thesis
    using unreadable_root_completes [OF r n e x, of "''17''"] a t e x by (simp add: quiet_def)
qed

text \<open>
  C5 as stated fails: with the root \<open>/locked\<close>, which exists and is not readable, the run is a
  normally completed scan. It sends \<open>scan_complete\<close> and no \<open>scan_error\<close>.
\<close>

theorem unreadable_root_counterexample:
  "existsSync lockedFs ''/locked'' \<and> \<not> accessSync lockedFs (normalize_path ''/locked'') \<and>
   completed (startScan (quiet lockedFs) ''17'' (request ''/locked'' 2)) \<and>
   filter isScanError (trace (startScan (quiet lockedFs) ''17'' (request ''/locked'' 2))) = []"
  by code_simp


subsection \<open>Clean paths\<close>



























subsection \<open>Folder dictionaries\<close>



lemma map_of_ensure:
  "\<not> inherited k \<Longrightarrow> map_of (ensure m k v) = (case map_of m k of None \<Rightarrow> (map_of m)(k \<mapsto> v) | Some e \<Rightarrow> map_of m)"
  by (auto simp: ensure_def jsGet_def update_conv' split: option.splits)

lemma map_of_modify:
  "map_of (modify m k f) = (case map_of m k of None \<Rightarrow> map_of m | Some e \<Rightarrow> (map_of m)(k \<mapsto> f e))"
  by (auto simp: modify_def update_conv' split: option.splits)



lemma keys_ensure: "\<not> inherited k \<Longrightarrow> fst ` set (ensure m k v) = insert k (fst ` set m)"
proof -
  assume "\<not> inherited k"
  then have "dom (map_of (ensure m k v)) = insert k (dom (map_of m))"
    by (auto simp: map_of_ensure split: option.splits)
  then show ?thesis by (simp add: dom_map_of_conv_image_fst)
qed



lemma distinct_ensure: "distinct (map fst m) \<Longrightarrow> distinct (map fst (ensure m k v))"
  by (auto simp: ensure_def distinct_update split: jsprop.splits)

lemma distinct_modify: "distinct (map fst m) \<Longrightarrow> distinct (map fst (modify m k f))"
  by (auto simp: modify_def distinct_update split: option.splits)







subsection \<open>The folders a file is added to\<close>







subsection \<open>Folder sizes of a completed scan\<close>











text \<open>
  The bound on the sizes is needed as well. With the clean root \<open>/data\<close> and the files
  \<open>/data/a.bin\<close> of \<open>2^53\<close> bytes and \<open>/data/b.bin\<close> of one byte, the additions of line
  354 round the size of the entry of \<open>/data\<close> to \<open>2^53\<close>, one less than the sum.
\<close>

lemma folder_size_rounds:
  "completed (startScan (quiet hugeFs) ''17'' (request ''/data'' 2)) \<and>
   folders (stats (startScan (quiet hugeFs) ''17'' (request ''/data'' 2))) =
     [(''/data'', \<lparr>foName = JStr ''data'', foPath = ''/data'', foSize = 9007199254740992\<rparr>)] \<and>
   sum_list (map (sizeBelow ''/data'' ''/data'') (visitDirectory hugeFs ''/data'' 1 2)) =
     9007199254740993"
  by code_simp


subsection \<open>Names that the dictionaries mishandle\<close>

text \<open>
  The depth rule: a directory entry is recorded, and entered exactly when the current depth
  is below the maximum, one level deeper. Its folder entry is created unless its path is a
  name that every object inherits.
\<close>

lemma directory_at_ceiling:
  assumes "\<not> abort w" and "entKind entry = Directory" and "\<not> currentDepth < maxDepth"
  shows "scanEntries E T dirPath (entry # rest) currentDepth maxDepth w =
         scanEntries E T dirPath rest currentDepth maxDepth (ensureFolder (join dirPath (entName entry)) w)"
  using assms by (simp add: Let_def)

lemma directory_below_ceiling:
  assumes "\<not> abort w" and "entKind entry = Directory" and "currentDepth < maxDepth"
    and "scanDirectory E T (join dirPath (entName entry)) (currentDepth + 1) maxDepth
           (ensureFolder (join dirPath (entName entry)) w) = (rejected, w2)"
  shows "scanEntries E T dirPath (entry # rest) currentDepth maxDepth w =
         scanEntries E T dirPath rest currentDepth maxDepth
           (if rejected then bumpError (deliver E T w2) else deliver E T w2)"
  using assms by (simp add: Let_def)

lemma ensureFolder_creates:
  assumes "\<not> inherited p"
  shows "p \<in> fst ` set (folders (stats (ensureFolder p w)))"
  using keys_ensure [OF assms, of "folders (stats w)" "newFolder p"] by simp

lemma ensureFolder_inherited:
  assumes "inherited p"
  shows "folders (stats (ensureFolder p w)) = folders (stats w)"
proof (cases "map_of (folders (stats w)) p")
  case None
  then show ?thesis using assms by (simp add: ensure_def jsGet_def)
next
  case (Some e)
  then show ?thesis by (simp add: ensure_def jsGet_def)
qed

text \<open>
  A file whose extension is not an inherited name keeps the counters in agreement with the
  file-type entries, as long as the total of the sizes is a double.
\<close>

lemma sum_update_absent:
  "k \<notin> fst ` set m \<Longrightarrow>
     sum_list (map g (AList.update k v m)) = sum_list (map g m) + (g (k, v) :: int)"
  by (induction m) auto

lemma sum_update_present:
  "distinct (map fst m) \<Longrightarrow> map_of m k = Some e \<Longrightarrow>
     sum_list (map g (AList.update k v m)) = sum_list (map g m) - g (k, e) + (g (k, v) :: int)"
proof (induction m)
  case Nil
  then show ?case by simp
next
  case (Cons a m)
  show ?case
  proof (cases "fst a = k")
    case True
    then have "a = (k, e)" using Cons.prems(2) by (cases a) simp
    then show ?thesis by simp
  next
    case False
    then show ?thesis using Cons by simp
  qed
qed

lemma sum_nonneg:
  "list_all (\<lambda>x. 0 \<le> g x) xs \<Longrightarrow> (0 :: int) \<le> sum_list (map g xs)"
  by (induction xs) auto

lemma member_le_sum:
  "list_all (\<lambda>x. 0 \<le> g x) xs \<Longrightarrow> x \<in> set xs \<Longrightarrow> (g x :: int) \<le> sum_list (map g xs)"
proof (induction xs)
  case Nil
  then show ?case by simp
next
  case (Cons a xs)
  have "0 \<le> sum_list (map g xs)" using Cons.prems(1) by (intro sum_nonneg) simp
  then show ?case using Cons by auto
qed

lemma list_all_update:
  "list_all P m \<Longrightarrow> P (k, v) \<Longrightarrow> list_all P (AList.update k v m)"
  by (induction m) auto

lemma recordFile_fileTypes:
  "fileTypes (recordFile root p n sz st) =
     modify (modify (ensure (fileTypes st) (fileExtension n)
        \<lparr>ftName = fileExtension n, ftCount = 0, ftSize = 0,
         ftDescription = getFileDescription (fileExtension n)\<rparr>)
       (fileExtension n) (\<lambda>e. e\<lparr>ftCount := ftCount e + 1\<rparr>))
       (fileExtension n) (\<lambda>e. e\<lparr>ftSize := jsAdd (ftSize e) sz\<rparr>)"
  by (simp add: recordFile_def Let_def)

lemma bucket_sums:
  assumes "distinct (map fst m)" and "\<not> inherited k"
    and "list_all (\<lambda>kv. 0 \<le> ftSize (snd kv)) m" and "0 \<le> sz"
    and "sum_list (map (\<lambda>kv. ftSize (snd kv)) m) + sz < 9007199254740992"
  shows "sum_list (map (\<lambda>kv. ftCount (snd kv))
           (modify (modify (ensure m k \<lparr>ftName = k, ftCount = 0, ftSize = 0, ftDescription = d\<rparr>)
              k (\<lambda>e. e\<lparr>ftCount := ftCount e + 1\<rparr>)) k (\<lambda>e. e\<lparr>ftSize := jsAdd (ftSize e) sz\<rparr>))) =
         sum_list (map (\<lambda>kv. ftCount (snd kv)) m) + 1"
    and "sum_list (map (\<lambda>kv. ftSize (snd kv))
           (modify (modify (ensure m k \<lparr>ftName = k, ftCount = 0, ftSize = 0, ftDescription = d\<rparr>)
              k (\<lambda>e. e\<lparr>ftCount := ftCount e + 1\<rparr>)) k (\<lambda>e. e\<lparr>ftSize := jsAdd (ftSize e) sz\<rparr>))) =
         sum_list (map (\<lambda>kv. ftSize (snd kv)) m) + sz"
    and "distinct (map fst
           (modify (modify (ensure m k \<lparr>ftName = k, ftCount = 0, ftSize = 0, ftDescription = d\<rparr>)
              k (\<lambda>e. e\<lparr>ftCount := ftCount e + 1\<rparr>)) k (\<lambda>e. e\<lparr>ftSize := jsAdd (ftSize e) sz\<rparr>)))"
    and "list_all (\<lambda>kv. 0 \<le> ftSize (snd kv))
           (modify (modify (ensure m k \<lparr>ftName = k, ftCount = 0, ftSize = 0, ftDescription = d\<rparr>)
              k (\<lambda>e. e\<lparr>ftCount := ftCount e + 1\<rparr>)) k (\<lambda>e. e\<lparr>ftSize := jsAdd (ftSize e) sz\<rparr>))"
proof -
  let ?new = "\<lparr>ftName = k, ftCount = 0, ftSize = 0, ftDescription = d\<rparr>"
  let ?m1 = "ensure m k ?new"
  let ?m2 = "modify ?m1 k (\<lambda>e. e\<lparr>ftCount := ftCount e + 1\<rparr>)"
  let ?m3 = "modify ?m2 k (\<lambda>e. e\<lparr>ftSize := jsAdd (ftSize e) sz\<rparr>)"
  have d1: "distinct (map fst ?m1)" using assms(1) by (rule distinct_ensure)
  have d2: "distinct (map fst ?m2)" using d1 by (rule distinct_modify)
  show "distinct (map fst ?m3)" using d2 by (rule distinct_modify)
  obtain e1 where e1: "map_of ?m1 k = Some e1"
    "sum_list (map (\<lambda>kv. ftCount (snd kv)) ?m1) = sum_list (map (\<lambda>kv. ftCount (snd kv)) m)"
    "sum_list (map (\<lambda>kv. ftSize (snd kv)) ?m1) = sum_list (map (\<lambda>kv. ftSize (snd kv)) m)"
    "list_all (\<lambda>kv. 0 \<le> ftSize (snd kv)) ?m1"
  proof (cases "map_of m k")
    case None
    then have "k \<notin> fst ` set m" by (simp add: map_of_eq_None_iff)
    then show ?thesis
      using that [of ?new] None assms(2,3)
      by (simp add: ensure_def jsGet_def sum_update_absent update_conv' list_all_update)
  next
    case (Some e)
    then show ?thesis using that [of e] assms(3) by (simp add: ensure_def jsGet_def)
  qed
  have "(k, e1) \<in> set ?m1" using e1(1) by (rule map_of_SomeD)
  then have le: "ftSize e1 \<le> sum_list (map (\<lambda>kv. ftSize (snd kv)) ?m1)" and n1: "0 \<le> ftSize e1"
    using member_le_sum [OF e1(4), of "(k, e1)"] e1(4) by (auto simp: list_all_iff)
  have ex: "jsAdd (ftSize e1) sz = ftSize e1 + sz"
    using le n1 assms(4,5) unfolding e1(3) by (intro jsAdd_exact) simp_all
  have m2: "?m2 = AList.update k (e1\<lparr>ftCount := ftCount e1 + 1\<rparr>) ?m1"
    using e1(1) by (simp add: modify_def)
  have e2: "map_of ?m2 k = Some (e1\<lparr>ftCount := ftCount e1 + 1\<rparr>)"
    unfolding m2 by (simp add: update_conv')
  have m3: "?m3 = AList.update k (e1\<lparr>ftCount := ftCount e1 + 1, ftSize := ftSize e1 + sz\<rparr>) ?m2"
    using e2 ex by (simp add: modify_def)
  show "sum_list (map (\<lambda>kv. ftCount (snd kv)) ?m3) = sum_list (map (\<lambda>kv. ftCount (snd kv)) m) + 1"
    unfolding m3 sum_update_present [OF d2 e2] unfolding m2 sum_update_present [OF d1 e1(1)] e1(2)
    by simp
  show "sum_list (map (\<lambda>kv. ftSize (snd kv)) ?m3) = sum_list (map (\<lambda>kv. ftSize (snd kv)) m) + sz"
    unfolding m3 sum_update_present [OF d2 e2] unfolding m2 sum_update_present [OF d1 e1(1)] e1(3)
    by simp
  have "list_all (\<lambda>kv. 0 \<le> ftSize (snd kv)) ?m2"
    unfolding m2 using e1(4) n1 by (simp add: list_all_update)
  then show "list_all (\<lambda>kv. 0 \<le> ftSize (snd kv)) ?m3"
    unfolding m3 using n1 assms(4) by (simp add: list_all_update)
qed

lemma recordFile_typeTotals:
  assumes "typeTotals st" and "sizedTypes st" and "distinct (map fst (fileTypes st))"
    and "\<not> inherited (fileExtension n)" and "0 \<le> sz" and "totalSize st + sz < 9007199254740992"
  shows "typeTotals (recordFile root p n sz st) \<and> sizedTypes (recordFile root p n sz st) \<and>
         distinct (map fst (fileTypes (recordFile root p n sz st)))"
proof -
  have t: "totalSize st = sum_list (map (\<lambda>kv. ftSize (snd kv)) (fileTypes st))"
    using assms(1) by (simp add: typeTotals_def)
  have s: "list_all (\<lambda>kv. 0 \<le> ftSize (snd kv)) (fileTypes st)"
    using assms(2) by (simp add: sizedTypes_def)
  have b: "sum_list (map (\<lambda>kv. ftSize (snd kv)) (fileTypes st)) + sz < 9007199254740992"
    using assms(6) unfolding t .
  have z: "0 \<le> totalSize st"
    unfolding t using s by (rule sum_nonneg)
  have x: "jsAdd (totalSize st) sz = totalSize st + sz"
    using z assms(5,6) by (rule jsAdd_exact)
  note bs = bucket_sums [OF assms(3,4) s assms(5) b]
  show ?thesis
    using assms(1) bs x unfolding typeTotals_def sizedTypes_def recordFile_fileTypes
    by (simp add: totalFiles_recordFile totalSize_recordFile recordFile_def Let_def)
qed


text \<open>
  A file that is an application indicator adds its size to the entry under the key that
  \<open>path.basename\<close> returns, creating the entry at first sight, unless that key is an
  inherited name; any other file leaves the applications as they are.
\<close>

lemma recordFile_applications:
  "applications (recordFile root p n sz st) =
     (if isExecutable (fileExtension n) \<or> isInAppDirectory p then
        modify (ensure (applications st) (basename p (''.'' @ fileExtension n))
                  \<lparr>apName = basename p (''.'' @ fileExtension n), apPath = p, apSize = 0\<rparr>)
          (basename p (''.'' @ fileExtension n)) (\<lambda>e. e\<lparr>apSize := jsAdd (apSize e) sz\<rparr>)
      else applications st)"
  by (simp add: recordFile_def Let_def)

lemma application_accumulates:
  assumes "isExecutable (fileExtension n) \<or> isInAppDirectory p"
    and "k = basename p (''.'' @ fileExtension n)" and "\<not> inherited k"
  shows "map_of (applications (recordFile root p n sz st)) k =
         Some (case map_of (applications st) k of
                 None \<Rightarrow> \<lparr>apName = k, apPath = p, apSize = jsAdd 0 sz\<rparr>
               | Some e \<Rightarrow> e\<lparr>apSize := jsAdd (apSize e) sz\<rparr>)"
  using assms by (simp add: recordFile_applications map_of_modify map_of_ensure split: option.splits)

text \<open>
  C7 at a failing input. The walk of \<open>.\<close> with maximum depth 1 meets the directory
  \<open>constructor\<close> at the depth ceiling and does not descend, but it creates no folder entry for
  it: \<open>path.join\<close> yields the key \<open>constructor\<close>, under which the empty dictionary already
  reads a truthy inherited member, so the creation of line 276 is skipped.
\<close>

theorem inherited_folder_name_has_no_entry:
  "completed (startScan (quiet dotFs) ''17'' (request ''.'' 1)) \<and>
   visitDirectory dotFs ''.'' 1 1 = [SeenFolder ''constructor''] \<and>
   folders (stats (startScan (quiet dotFs) ''17'' (request ''.'' 1))) = []"
  by code_simp

text \<open>
  C9 at a failing input. \<open>/data/Setup.EXE\<close> is an application indicator (its lowercase
  extension is \<open>exe\<close>), but its size is added under the key \<open>Setup.EXE\<close>, the name with its
  extension: \<open>path.basename\<close> is asked to strip the lowercased \<open>.exe\<close>, which the name does
  not end with.
\<close>

theorem application_key_keeps_capital_extension:
  "fileExtension ''Setup.EXE'' = ''exe'' \<and> isExecutable ''exe'' \<and>
   completed (startScan (quiet setupFs) ''17'' (request ''/data'' 2)) \<and>
   applications (stats (startScan (quiet setupFs) ''17'' (request ''/data'' 2))) =
     [(''Setup.EXE'', \<lparr>apName = ''Setup.EXE'', apPath = ''/data/Setup.EXE'', apSize = 7\<rparr>)]"
  by code_simp

text \<open>
  C10 at a failing input. After the one file \<open>/data/a.constructor\<close> (5 bytes) is processed,
  \<open>totalFiles\<close> and \<open>scannedCount\<close> are 1 and \<open>totalSize\<close> is 5, but there is no file-type
  entry, so the counts and sizes of the file-type entries sum to 0.
\<close>

theorem inherited_extension_is_not_counted:
  "fileExtension ''a.constructor'' = ''constructor'' \<and>
   completed (startScan (quiet oddFs) ''17'' (request ''/data'' 2)) \<and>
   totalFiles (stats (startScan (quiet oddFs) ''17'' (request ''/data'' 2))) = 1 \<and>
   scannedCount (stats (startScan (quiet oddFs) ''17'' (request ''/data'' 2))) = 1 \<and>
   totalSize (stats (startScan (quiet oddFs) ''17'' (request ''/data'' 2))) = 5 \<and>
   fileTypes (stats (startScan (quiet oddFs) ''17'' (request ''/data'' 2))) = []"
  by code_simp

end
